(* ===== verification/Prelude.thy ===== *)
theory Prelude
  imports Main "HOL-Library.Word"
begin

text \<open>
  Shared vocabulary of the development: the machine integer types, the result type of
  kernel code (a value, a panic, an undefined access, or a process that went to sleep),
  its sequencing operator, loops over index ranges, little-endian byte encodings, and
  byte-addressed memory.  The component theories import this one.
\<close>

unbundle bit_operations_syntax

section \<open>Machine integers (kernel/types.h)\<close>

type_synonym u8 = "8 word"
type_synonym u16 = "16 word"
type_synonym u32 = "32 word"
type_synonym u64 = "64 word"

named_theorems unfold_ops \<open>definitions of kernel operations, for unfolding\<close>
named_theorems frame_simps \<open>what an operation leaves unchanged\<close>

section \<open>Results of kernel code\<close>

text \<open>
  The address a process sleeps on.  The kernel uses addresses of distinct objects as
  wait channels; a constructor per kind of object keeps them distinct.
\<close>

datatype chan =
    ChanBufLock nat     \<comment> \<open>the sleep lock of a buffer, \<open>&b->lock\<close>\<close>
  | ChanInodeLock nat   \<comment> \<open>the sleep lock of an inode, \<open>&ip->lock\<close>\<close>
  | ChanLog             \<comment> \<open>\<open>&log\<close>\<close>
  | ChanPipeRead u64    \<comment> \<open>\<open>&pi->nread\<close>\<close>
  | ChanPipeWrite u64   \<comment> \<open>\<open>&pi->nwrite\<close>\<close>
  | ChanProc nat        \<comment> \<open>a process waiting for its children, \<open>p\<close>\<close>
  | ChanTicks           \<comment> \<open>\<open>&ticks\<close>\<close>
  | ChanConsRead        \<comment> \<open>\<open>&cons.r\<close>\<close>
  | ChanUartTx          \<comment> \<open>\<open>&uart_tx_r\<close>\<close>
  | ChanDiskFree        \<comment> \<open>\<open>&disk.free[0]\<close>\<close>
  | ChanDiskBuf nat     \<comment> \<open>a buffer the disk owns, \<open>b\<close>\<close>

text \<open>
  Kernel code ends in one of five ways: it returns (\<open>Inr\<close>), it panics, it performs an
  access the C source leaves undefined (an index outside an array), it calls \<open>sleep\<close> and
  the process stops in a state in which it waits on a channel, or it gives up the CPU
  without waiting: after \<open>yield\<close> it goes on later, after \<open>exit\<close> never.
\<close>

datatype 's stop =
    Panic string
  | Fault string
  | Asleep chan 's
  | Switched 's

definition bindE :: "'e + 'a \<Rightarrow> ('a \<Rightarrow> 'e + 'b) \<Rightarrow> 'e + 'b" where
  "bindE m f = (case m of Inl e \<Rightarrow> Inl e | Inr x \<Rightarrow> f x)"

lemma bindE_simps [simp]:
  "bindE (Inl e) f = Inl e"
  "bindE (Inr x) f = f x"
  by (simp_all add: bindE_def)

lemma bindE_eq_Inr [simp]: "bindE m f = Inr y \<longleftrightarrow> (\<exists>x. m = Inr x \<and> f x = Inr y)"
  by (cases m) simp_all

lemma Inr_eq_bindE [simp]: "Inr y = bindE m f \<longleftrightarrow> (\<exists>x. m = Inr x \<and> f x = Inr y)"
  by (cases m) auto

lemma bindE_eq_Inl:
  "bindE m f = Inl e \<longleftrightarrow> m = Inl e \<or> (\<exists>x. m = Inr x \<and> f x = Inl e)"
  by (cases m) auto

lemma bindE_assoc: "bindE (bindE m f) g = bindE m (\<lambda>x. bindE (f x) g)"
  by (cases m) simp_all

lemma bindE_cong [fundef_cong]:
  "m = m' \<Longrightarrow> (\<And>x. m' = Inr x \<Longrightarrow> f x = f' x) \<Longrightarrow> bindE m f = bindE m' f'"
  by (cases m') (simp_all add: bindE_def)

text \<open>A loop whose body may stop: the body runs for each element, in order.\<close>

fun foldE :: "('i \<Rightarrow> 's \<Rightarrow> 'e + 's) \<Rightarrow> 'i list \<Rightarrow> 's \<Rightarrow> 'e + 's" where
  "foldE f [] s = Inr s"
| "foldE f (x # xs) s = bindE (f x s) (foldE f xs)"

lemma foldE_append: "foldE f (xs @ ys) s = bindE (foldE f xs s) (foldE f ys)"
proof (induction xs arbitrary: s)
  case Nil
  then show ?case by simp
next
  case (Cons x xs)
  then show ?case by (cases "f x s") simp_all
qed

lemma foldE_invariant:
  assumes "foldE f xs s = Inr s'" and "I s"
    and "\<And>x t t'. x \<in> set xs \<Longrightarrow> I t \<Longrightarrow> f x t = Inr t' \<Longrightarrow> I t'"
  shows "I s'"
  using assms
proof (induction xs arbitrary: s)
  case Nil
  then show ?case by simp
next
  case (Cons x xs)
  from Cons.prems(1) obtain t where t: "f x s = Inr t" "foldE f xs t = Inr s'"
    by auto
  have "I t" using Cons.prems(2,3) t(1) by auto
  then show ?case using Cons.IH [OF t(2)] Cons.prems(3) by auto
qed

lemma foldE_total:
  assumes "I s" and "\<And>x t. x \<in> set xs \<Longrightarrow> I t \<Longrightarrow> \<exists>t'. f x t = Inr t' \<and> I t'"
  shows "\<exists>s'. foldE f xs s = Inr s' \<and> I s'"
  using assms
proof (induction xs arbitrary: s)
  case Nil
  then show ?case by simp
next
  case (Cons x xs)
  from Cons.prems obtain t where t: "f x s = Inr t" "I t" by (meson list.set_intros(1))
  with Cons show ?case by fastforce
qed

section \<open>Searching a table\<close>

text \<open>
  \<open>first_index P n\<close> is the result of \<open>for(i = 0; i < n; i++) if(P(i)) ...\<close>: the
  least index of the table that satisfies the condition, if there is one.
\<close>

definition first_index :: "(nat \<Rightarrow> bool) \<Rightarrow> nat \<Rightarrow> nat option" where
  "first_index P n = List.find P [0..<n]"

lemma first_index_None [simp]: "first_index P n = None \<longleftrightarrow> (\<forall>i<n. \<not> P i)"
  by (auto simp: first_index_def find_None_iff)

lemma first_index_Some:
  "first_index P n = Some i \<longleftrightarrow> i < n \<and> P i \<and> (\<forall>j<i. \<not> P j)"
  by (auto simp: first_index_def find_Some_iff)

lemma first_index_SomeD:
  "first_index P n = Some i \<Longrightarrow> i < n \<and> P i"
  by (simp add: first_index_Some)

lemma first_index_ex: "i < n \<Longrightarrow> P i \<Longrightarrow> \<exists>j. first_index P n = Some j"
  by (metis first_index_None not_None_eq)

section \<open>Little-endian encodings\<close>

fun le_decode :: "u8 list \<Rightarrow> nat" where
  "le_decode [] = 0"
| "le_decode (b # bs) = unat b + 256 * le_decode bs"

fun le_encode :: "nat \<Rightarrow> nat \<Rightarrow> u8 list" where
  "le_encode 0 x = []"
| "le_encode (Suc k) x = word_of_nat x # le_encode k (x div 256)"

lemma length_le_encode [simp]: "length (le_encode k x) = k"
  by (induction k arbitrary: x) simp_all

lemma unat_u8_of_nat: "unat (word_of_nat x :: u8) = x mod 256"
  by (simp add: unat_of_nat)

lemma le_decode_encode: "le_decode (le_encode k x) = x mod 256 ^ k"
proof (induction k arbitrary: x)
  case 0
  then show ?case by simp
next
  case (Suc k)
  have "x mod 256 ^ Suc k = x mod 256 + 256 * (x div 256 mod 256 ^ k)"
    by (simp add: mod_mult2_eq)
  then show ?case using Suc by (simp add: unat_u8_of_nat)
qed

lemma le_decode_bound: "le_decode bs < 256 ^ length bs"
proof (induction bs)
  case Nil
  then show ?case by simp
next
  case (Cons b bs)
  have "unat b < 256" using unsigned_less [of b, where ?'a = nat] by simp
  moreover have "le_decode bs + 1 \<le> 256 ^ length bs" using Cons by simp
  then have "256 * (le_decode bs + 1) \<le> 256 * 256 ^ length bs"
    by (rule mult_le_mono2)
  ultimately show ?case by simp
qed

lemma le_encode_decode: "le_encode (length bs) (le_decode bs) = bs"
proof (induction bs)
  case Nil
  then show ?case by simp
next
  case (Cons b bs)
  have "unat b < 256" using unsigned_less [of b, where ?'a = nat] by simp
  then have low: "(unat b + 256 * le_decode bs) mod 256 = unat b"
    and high: "(unat b + 256 * le_decode bs) div 256 = le_decode bs" by simp_all
  have "unat (word_of_nat (unat b + 256 * le_decode bs) :: u8) = unat b"
    by (simp only: unat_u8_of_nat low)
  then have "word_of_nat (unat b + 256 * le_decode bs) = b"
    by (rule unsigned_word_eqI)
  with high show ?case using Cons by simp
qed

lemma le_decode_zeroes [simp]: "le_decode (replicate n 0) = 0"
  by (induction n) simp_all

section \<open>Byte-addressed memory\<close>

type_synonym memory = "u64 \<Rightarrow> u8"

definition loadn :: "memory \<Rightarrow> u64 \<Rightarrow> nat \<Rightarrow> u8 list" where
  "loadn m a n = map (\<lambda>i. m (a + word_of_nat i)) [0..<n]"

definition storen :: "memory \<Rightarrow> u64 \<Rightarrow> u8 list \<Rightarrow> memory" where
  "storen m a bs = (\<lambda>x. let i = unat (x - a) in if i < length bs then bs ! i else m x)"

definition load64 :: "memory \<Rightarrow> u64 \<Rightarrow> u64" where
  "load64 m a = word_of_nat (le_decode (loadn m a 8))"

definition store64 :: "memory \<Rightarrow> u64 \<Rightarrow> u64 \<Rightarrow> memory" where
  "store64 m a v = storen m a (le_encode 8 (unat v))"

lemma length_loadn [simp]: "length (loadn m a n) = n"
  by (simp add: loadn_def)

lemma nth_loadn [simp]: "i < n \<Longrightarrow> loadn m a n ! i = m (a + word_of_nat i)"
  by (simp add: loadn_def)

lemma unat_word_of_nat_u64: "n < 2 ^ 64 \<Longrightarrow> unat (word_of_nat n :: u64) = n"
  by (simp add: unat_of_nat)

lemma unat_ucast_u32_u64 [simp]: "unat (ucast (n :: u32) :: u64) = unat n"
proof -
  have "unat n < 2 ^ 64" using unsigned_less [of n, where ?'a = nat] by simp
  then show ?thesis by (simp add: unsigned_ucast_eq take_bit_nat_eq_self)
qed

lemma u64_offset: "k < 2 ^ 64 \<Longrightarrow> x = a + word_of_nat k \<longleftrightarrow> unat (x - a) = k" for x a :: u64
proof
  assume "k < 2 ^ 64" and "x = a + word_of_nat k"
  then show "unat (x - a) = k" by (simp add: unat_word_of_nat_u64)
next
  assume "unat (x - a) = k"
  then have "word_of_nat k = x - a" by auto
  then show "x = a + word_of_nat k" by simp
qed

lemma loadn_storen_same:
  "length bs \<le> 2 ^ 64 \<Longrightarrow> loadn (storen m a bs) a (length bs) = bs"
  by (rule nth_equalityI) (simp_all add: storen_def unat_word_of_nat_u64)

lemma loadn_cong:
  "(\<And>i. i < n \<Longrightarrow> m (a + word_of_nat i) = m' (a + word_of_nat i)) \<Longrightarrow> loadn m a n = loadn m' a n"
  by (simp add: loadn_def)

lemma load64_cong:
  "(\<And>i. i < 8 \<Longrightarrow> m (a + word_of_nat i) = m' (a + word_of_nat i)) \<Longrightarrow> load64 m a = load64 m' a"
  by (simp add: load64_def loadn_cong [of 8 m a m'])

lemma load64_store64 [simp]: "load64 (store64 m a v) a = v"
proof -
  have "loadn (storen m a (le_encode 8 (unat v))) a 8 = le_encode 8 (unat v)"
    using loadn_storen_same [of "le_encode 8 (unat v)" m a] by simp
  moreover have "unat v mod 256 ^ 8 = unat v"
    using unsigned_less [of v, where ?'a = nat] by simp
  ultimately show ?thesis
    by (simp add: load64_def store64_def le_decode_encode)
qed

lemma storen_outside:
  "length bs \<le> unat (x - a) \<Longrightarrow> storen m a bs x = m x"
  by (simp add: storen_def Let_def)

lemma store64_outside: "8 \<le> unat (x - a) \<Longrightarrow> store64 m a v x = m x"
  by (simp add: store64_def storen_outside)


text \<open>The signed reading of a 32-bit word.\<close>

lemma sint_u32: "sint (x :: u32) = (if uint x < 2 ^ 31 then uint x else uint x - 2 ^ 32)"
proof -
  have u: "0 \<le> uint x" "uint x < 2 ^ 32" using uint_bounded [of x] by simp_all
  have "sint x = (uint x + 2 ^ 31) mod 2 ^ 32 - 2 ^ 31"
    unfolding sint_uint by (simp add: signed_take_bit_eq_take_bit_shift take_bit_eq_mod)
  moreover have "(uint x + 2 ^ 31) mod 2 ^ 32 =
      (if uint x < 2 ^ 31 then uint x + 2 ^ 31 else uint x - 2 ^ 31)"
  proof (cases "uint x < 2 ^ 31")
    case False
    then have "(uint x + 2 ^ 31) mod 2 ^ 32 = (uint x - 2 ^ 31) mod 2 ^ 32"
      using mod_add_self2 [of "uint x - 2 ^ 31" "2 ^ 32 :: int"] by (simp add: add.commute)
    with False u show ?thesis by (simp add: mod_pos_pos_trivial)
  qed (use u in \<open>simp add: mod_pos_pos_trivial\<close>)
  ultimately show ?thesis by simp
qed

end
