(* ===== verification/Memlayout.thy ===== *)
theory Memlayout
  imports Prelude
begin

text \<open>
  The constants and macros of kernel/param.h, kernel/memlayout.h and kernel/riscv.h that
  the memory management code is written with: page rounding, the address map, and the
  bit fields of page-table entries and virtual addresses.  Each macro on 64-bit words
  is related to division and remainder on natural numbers, which is how the proofs
  about pages reason.
\<close>

section \<open>Constants (kernel/param.h)\<close>

abbreviation (input) NPROC :: nat where "NPROC \<equiv> 64"
abbreviation (input) NCPU :: nat where "NCPU \<equiv> 8"
abbreviation (input) NOFILE :: nat where "NOFILE \<equiv> 16"
abbreviation (input) NFILE :: nat where "NFILE \<equiv> 100"
abbreviation (input) NINODE :: nat where "NINODE \<equiv> 50"
abbreviation (input) NDEV :: nat where "NDEV \<equiv> 10"
abbreviation (input) ROOTDEV :: "'a::numeral" where "ROOTDEV \<equiv> 1"
abbreviation (input) MAXARG :: nat where "MAXARG \<equiv> 32"
abbreviation (input) MAXOPBLOCKS :: "'a::numeral" where "MAXOPBLOCKS \<equiv> 10"
abbreviation (input) LOGSIZE :: "'a::numeral" where "LOGSIZE \<equiv> 30"
abbreviation (input) NBUF :: nat where "NBUF \<equiv> 30"
abbreviation (input) FSSIZE :: "'a::numeral" where "FSSIZE \<equiv> 2000"
abbreviation (input) MAXPATH :: nat where "MAXPATH \<equiv> 128"

section \<open>Pages and the address map (kernel/riscv.h, kernel/memlayout.h)\<close>

abbreviation PGSIZE :: "'a::numeral" where "PGSIZE \<equiv> 4096"
abbreviation (input) PGSHIFT :: nat where "PGSHIFT \<equiv> 12"

definition PGROUNDUP :: "u64 \<Rightarrow> u64" where
  "PGROUNDUP sz = (sz + PGSIZE - 1) AND NOT (PGSIZE - 1)"

definition PGROUNDDOWN :: "u64 \<Rightarrow> u64" where
  "PGROUNDDOWN a = a AND NOT (PGSIZE - 1)"

abbreviation KERNBASE :: u64 where "KERNBASE \<equiv> 0x80000000"
abbreviation PHYSTOP :: u64 where "PHYSTOP \<equiv> 0x88000000" \<comment> \<open>\<open>KERNBASE + 128*1024*1024\<close>\<close>

abbreviation (input) MAXVA :: u64 where "MAXVA \<equiv> 0x4000000000"  \<comment> \<open>\<open>1 << 38\<close>\<close>
abbreviation TRAMPOLINE :: u64 where "TRAMPOLINE \<equiv> 0x3ffffff000"  \<comment> \<open>\<open>MAXVA - PGSIZE\<close>\<close>
abbreviation TRAPFRAME :: u64 where "TRAPFRAME \<equiv> 0x3fffffe000"  \<comment> \<open>\<open>TRAMPOLINE - PGSIZE\<close>\<close>

definition KSTACK :: "nat \<Rightarrow> u64" where
  "KSTACK p = TRAMPOLINE - (word_of_nat p + 1) * 2 * PGSIZE"

section \<open>Page-table entries (kernel/riscv.h)\<close>

abbreviation PTE_V :: u64 where "PTE_V \<equiv> 1"
abbreviation PTE_R :: u64 where "PTE_R \<equiv> 2"
abbreviation PTE_W :: u64 where "PTE_W \<equiv> 4"
abbreviation PTE_X :: u64 where "PTE_X \<equiv> 8"
abbreviation PTE_U :: u64 where "PTE_U \<equiv> 16"

definition PA2PTE :: "u64 \<Rightarrow> u64" where
  "PA2PTE pa = push_bit 10 (drop_bit 12 pa)"

definition PTE2PA :: "u64 \<Rightarrow> u64" where
  "PTE2PA pte = push_bit 12 (drop_bit 10 pte)"

definition PTE_FLAGS :: "u64 \<Rightarrow> u64" where
  "PTE_FLAGS pte = pte AND 0x3FF"

definition PXSHIFT :: "nat \<Rightarrow> nat" where
  "PXSHIFT level = PGSHIFT + 9 * level"

definition PX :: "nat \<Rightarrow> u64 \<Rightarrow> u64" where
  "PX level va = drop_bit (PXSHIFT level) va AND 0x1FF"

section \<open>Rounding as arithmetic\<close>

lemma and_not_low_mask: "a AND NOT (mask n) = push_bit n (drop_bit n a)" for a :: "'a::len word"
  by (rule bit_word_eqI) (auto simp: bit_simps)

lemma PGROUNDDOWN_shift: "PGROUNDDOWN a = push_bit 12 (drop_bit 12 a)"
proof -
  have "(PGSIZE - 1 :: u64) = mask 12" by (simp add: mask_eq_exp_minus_1)
  then show ?thesis unfolding PGROUNDDOWN_def by (simp only: and_not_low_mask)
qed

lemma unat_push_drop12: "unat (push_bit 12 (drop_bit 12 a) :: u64) = unat a div PGSIZE * PGSIZE"
proof -
  have d: "unat (drop_bit 12 a) = unat a div PGSIZE"
    by (simp add: drop_bit_eq_div unat_div_distrib)
  have "unat a div PGSIZE * PGSIZE \<le> unat a" by simp
  also have "\<dots> < 2 ^ 64" using unsigned_less [of a, where ?'a = nat] by simp
  finally show ?thesis
    by (simp add: push_bit_eq_mult unat_word_ariths d)
qed

lemma unat_PGROUNDDOWN: "unat (PGROUNDDOWN a) = unat a div PGSIZE * PGSIZE"
  by (simp add: PGROUNDDOWN_shift unat_push_drop12)

lemma PGROUNDUP_down: "PGROUNDUP a = PGROUNDDOWN (a + 4095)"
  by (simp add: PGROUNDUP_def PGROUNDDOWN_def add.commute)

lemma unat_PGROUNDUP:
  "unat sz + 4095 < 2 ^ 64 \<Longrightarrow> unat (PGROUNDUP sz) = (unat sz + 4095) div PGSIZE * PGSIZE"
proof -
  assume "unat sz + 4095 < 2 ^ 64"
  then have "unat (sz + 4095) = unat sz + 4095" by (simp add: unat_word_ariths)
  then show ?thesis by (simp add: PGROUNDUP_down unat_PGROUNDDOWN)
qed

text \<open>An address is page-aligned when it is a multiple of the page size.\<close>

definition page_aligned :: "u64 \<Rightarrow> bool" where
  "page_aligned a \<longleftrightarrow> unat a mod PGSIZE = 0"

lemma page_alignedE:
  assumes "page_aligned p"
  obtains k where "unat p = k * PGSIZE"
  using assms by (auto simp: page_aligned_def)

lemma page_aligned_PGROUNDDOWN [simp]: "page_aligned (PGROUNDDOWN a)"
  by (simp add: page_aligned_def unat_PGROUNDDOWN)

lemma page_aligned_PGROUNDUP [simp]: "page_aligned (PGROUNDUP a)"
  by (simp add: PGROUNDUP_down)

lemma PGROUNDDOWN_aligned: "page_aligned a \<Longrightarrow> PGROUNDDOWN a = a"
  by (rule unsigned_word_eqI [where ?'a = nat]) (auto simp: unat_PGROUNDDOWN page_aligned_def)

text \<open>A byte lies in an aligned page exactly when its address rounds down to the page.\<close>

lemma in_page_iff:
  assumes "page_aligned p"
  shows "unat (x - p) < PGSIZE \<longleftrightarrow> PGROUNDDOWN x = p"
proof
  obtain k where k: "unat p = k * PGSIZE" using assms by (rule page_alignedE)
  then have "unat p \<le> 2 ^ 64 - PGSIZE"
    using unsigned_less [of p, where ?'a = nat] by simp
  moreover assume d: "unat (x - p) < PGSIZE"
  ultimately have "unat (p + (x - p)) = unat p + unat (x - p)"
    by (subst unat_word_ariths) simp
  then have "unat x = unat p + unat (x - p)" by simp
  with d k have "unat (PGROUNDDOWN x) = unat p" by (simp add: unat_PGROUNDDOWN)
  then show "PGROUNDDOWN x = p" by (rule unsigned_word_eqI)
next
  assume "PGROUNDDOWN x = p"
  then have "unat p = unat x div PGSIZE * PGSIZE" by (auto simp: unat_PGROUNDDOWN)
  moreover from this have "p \<le> x" by (simp add: word_le_nat_alt)
  ultimately show "unat (x - p) < PGSIZE" by (simp add: unat_sub)
qed

end
