(* ===== verification/Strings.thy ===== *)
theory Strings
  imports Prelude
begin

text \<open>
  kernel/string.c.  \<open>memset\<close> and \<open>memmove\<close> act on byte-addressed memory; the
  address type of \<open>memset\<close> is generic, so that it also fills a block or a structure
  indexed from 0.  The functions that only read (\<open>memcmp\<close>, \<open>strncmp\<close>,
  \<open>strlen\<close>) or that fill a private buffer (\<open>strncpy\<close>, \<open>safestrcpy\<close>) take
  each object as the function from offsets to bytes that its pointer denotes.  The
  central fact is that \<open>memmove\<close> copies correctly for every overlap.
\<close>

section \<open>Definitions\<close>

definition memset :: "('a::semiring_1 \<Rightarrow> u8) \<Rightarrow> 'a \<Rightarrow> u32 \<Rightarrow> u32 \<Rightarrow> ('a \<Rightarrow> u8)" where
  "memset m dst c n = fold (\<lambda>i m. m(dst + of_nat i := ucast c)) [0..<unat n] m"

fun memcmp :: "(nat \<Rightarrow> u8) \<Rightarrow> (nat \<Rightarrow> u8) \<Rightarrow> nat \<Rightarrow> int" where
  "memcmp s1 s2 0 = 0"
| "memcmp s1 s2 (Suc n) =
     (if s1 0 \<noteq> s2 0 then uint (s1 0) - uint (s2 0)
      else memcmp (s1 \<circ> Suc) (s2 \<circ> Suc) n)"

fun move_up :: "memory \<Rightarrow> u64 \<Rightarrow> u64 \<Rightarrow> nat \<Rightarrow> memory" where
  "move_up m d s 0 = m"
| "move_up m d s (Suc n) = move_up (m(d := m s)) (d + 1) (s + 1) n"

fun move_down :: "memory \<Rightarrow> u64 \<Rightarrow> u64 \<Rightarrow> nat \<Rightarrow> memory" where
  "move_down m d s 0 = m"
| "move_down m d s (Suc n) = move_down (m(d - 1 := m (s - 1))) (d - 1) (s - 1) n"

definition memmove :: "memory \<Rightarrow> u64 \<Rightarrow> u64 \<Rightarrow> u32 \<Rightarrow> memory" where
  "memmove m dst src n =
     (if n = 0 then m
      else if src < dst \<and> src + ucast n > dst
      then move_down m (dst + ucast n) (src + ucast n) (unat n)
      else move_up m dst src (unat n))"

definition memcpy :: "memory \<Rightarrow> u64 \<Rightarrow> u64 \<Rightarrow> u32 \<Rightarrow> memory" where
  "memcpy m dst src n = memmove m dst src n"

fun strncmp :: "(nat \<Rightarrow> u8) \<Rightarrow> (nat \<Rightarrow> u8) \<Rightarrow> nat \<Rightarrow> int" where
  "strncmp p q 0 = 0"
| "strncmp p q (Suc n) =
     (if p 0 \<noteq> 0 \<and> p 0 = q 0 then strncmp (p \<circ> Suc) (q \<circ> Suc) n
      else uint (p 0) - uint (q 0))"

fun strncpy_at :: "(nat \<Rightarrow> u8) \<Rightarrow> (nat \<Rightarrow> u8) \<Rightarrow> nat \<Rightarrow> nat \<Rightarrow> (nat \<Rightarrow> u8)" where
  "strncpy_at s t i 0 = s"
| "strncpy_at s t i (Suc n) =
     (if t i \<noteq> 0 then strncpy_at (s(i := t i)) t (Suc i) n
      else fold (\<lambda>k s. s(k := 0)) [Suc i..<Suc i + n] (s(i := t i)))"

definition strncpy :: "(nat \<Rightarrow> u8) \<Rightarrow> (nat \<Rightarrow> u8) \<Rightarrow> int \<Rightarrow> (nat \<Rightarrow> u8)" where
  "strncpy s t n = strncpy_at s t 0 (nat n)"

fun safestrcpy_at :: "(nat \<Rightarrow> u8) \<Rightarrow> (nat \<Rightarrow> u8) \<Rightarrow> nat \<Rightarrow> nat \<Rightarrow> (nat \<Rightarrow> u8)" where
  "safestrcpy_at s t i 0 = s(i := 0)"
| "safestrcpy_at s t i (Suc n) =
     (if t i \<noteq> 0 then safestrcpy_at (s(i := t i)) t (Suc i) n
      else s(i := t i, Suc i := 0))"

definition safestrcpy :: "(nat \<Rightarrow> u8) \<Rightarrow> (nat \<Rightarrow> u8) \<Rightarrow> int \<Rightarrow> (nat \<Rightarrow> u8)" where
  "safestrcpy s t n = (if n \<le> 0 then s else safestrcpy_at s t 0 (nat n - 1))"

partial_function (option) strlen_from :: "(nat \<Rightarrow> u8) \<Rightarrow> nat \<Rightarrow> nat option" where
  "strlen_from s n = (if s n = 0 then Some n else strlen_from s (Suc n))"

definition strlen :: "(nat \<Rightarrow> u8) \<Rightarrow> nat option" where
  "strlen s = strlen_from s 0"

section \<open>memset and memmove\<close>

lemma fold_fill:
  "fold (\<lambda>i m. m(g i := c)) xs m x = (if x \<in> g ` set xs then c else m x)"
  by (induction xs arbitrary: m) auto

lemma memset_apply:
  "memset m dst c n x = (if \<exists>i<unat n. x = dst + of_nat i then ucast c else m x)"
  unfolding memset_def fold_fill by (auto simp: image_iff)

lemma memset_u64:
  fixes m :: memory
  shows "memset m dst c n x = (if unat (x - dst) < unat n then ucast c else m x)"
proof -
  have "(\<exists>i<unat n. x = dst + of_nat i) \<longleftrightarrow> unat (x - dst) < unat n"
  proof
    assume "\<exists>i<unat n. x = dst + of_nat i"
    then obtain i where i: "i < unat n" "x = dst + of_nat i" by blast
    have "i < 2 ^ 64" using i(1) unsigned_less [of n, where ?'a = nat] by simp
    then show "unat (x - dst) < unat n" using i by (simp add: unat_of_nat)
  next
    assume "unat (x - dst) < unat n"
    moreover have "x = dst + of_nat (unat (x - dst))" by simp
    ultimately show "\<exists>i<unat n. x = dst + of_nat i" by blast
  qed
  then show ?thesis by (simp add: memset_apply)
qed

lemma memset_nat0: "memset m (0::nat) c n i = (if i < unat n then ucast c else m i)"
  by (simp add: memset_apply)

lemma loadn_Suc: "loadn m a (Suc n) = m a # loadn m (a + 1) n"
  unfolding loadn_def
  by (subst upt_conv_Cons, simp)
     (simp add: map_Suc_upt [symmetric] algebra_simps del: upt_Suc)

lemma loadn_snoc: "loadn m a (Suc n) = loadn m a n @ [m (a + word_of_nat n)]"
  by (simp add: loadn_def)

lemma storen_Cons:
  "length bs < 2 ^ 64 \<Longrightarrow> storen m a (b # bs) = storen (m(a := b)) (a + 1) bs"
proof (rule ext)
  fix x
  assume len: "length bs < 2 ^ 64"
  show "storen m a (b # bs) x = storen (m(a := b)) (a + 1) bs x"
  proof (cases "x = a")
    case True
    have "unat (a - (a + 1)) = 2 ^ 64 - 1" by (simp add: unsigned_minus_1_eq_mask mask_eq_exp_minus_1)
    with True len show ?thesis by (simp add: storen_def)
  next
    case False
    then have "x - a \<noteq> 0" by simp
    then have "unat (x - a - 1) = unat (x - a) - 1" and "0 < unat (x - a)"
      by (rule unat_minus_one, unfold unat_gt_0)
    then have "unat (x - a) = Suc (unat (x - (a + 1)))" by (simp add: diff_diff_eq)
    with False show ?thesis by (simp add: storen_def)
  qed
qed

lemma storen_snoc:
  "length bs < 2 ^ 64 \<Longrightarrow>
     storen m a (bs @ [b]) = storen (m(a + word_of_nat (length bs) := b)) a bs"
  by (rule ext) (simp add: storen_def Let_def nth_append u64_offset)

lemma storen_Nil [simp]: "storen m a [] = m"
  by (simp add: storen_def)

lemma loadn_0 [simp]: "loadn m a 0 = []"
  by (simp add: loadn_def)

lemma move_up_spec:
  "n \<le> 2 ^ 64 \<Longrightarrow>
   (\<And>i j. i < j \<Longrightarrow> j < n \<Longrightarrow> d + word_of_nat i \<noteq> s + word_of_nat j) \<Longrightarrow>
   move_up m d s n = storen m d (loadn m s n)"
proof (induction n arbitrary: m d s)
  case 0
  then show ?case by simp
next
  case (Suc n)
  have "d \<noteq> s + 1 + word_of_nat j" if "j < n" for j
    using Suc.prems(2) [of 0 "Suc j"] that by (simp add: algebra_simps)
  then have same: "loadn (m(d := m s)) (s + 1) n = loadn m (s + 1) n"
    by (intro loadn_cong) auto
  have "d + 1 + word_of_nat i \<noteq> s + 1 + word_of_nat j" if "i < j" "j < n" for i j
    using Suc.prems(2) [of "Suc i" "Suc j"] that by (simp add: algebra_simps)
  then have "move_up (m(d := m s)) (d + 1) (s + 1) n =
      storen (m(d := m s)) (d + 1) (loadn (m(d := m s)) (s + 1) n)"
    by (rule Suc.IH [rotated]) (use Suc.prems(1) in simp_all)
  then have "move_up m d s (Suc n) = storen (m(d := m s)) (d + 1) (loadn m (s + 1) n)"
    by (simp only: move_up.simps same)
  then show ?case using Suc.prems(1) by (simp add: storen_Cons loadn_Suc)
qed

lemma move_down_spec:
  "n \<le> 2 ^ 64 \<Longrightarrow>
   (\<And>i j. i < j \<Longrightarrow> j < n \<Longrightarrow> d + word_of_nat j \<noteq> s + word_of_nat i) \<Longrightarrow>
   move_down m (d + word_of_nat n) (s + word_of_nat n) n = storen m d (loadn m s n)"
proof (induction n arbitrary: m)
  case 0
  then show ?case by simp
next
  case (Suc n)
  let ?m = "m(d + word_of_nat n := m (s + word_of_nat n))"
  have same: "loadn ?m s n = loadn m s n"
    using Suc.prems(2) by (intro loadn_cong) (metis fun_upd_other lessI)
  have "move_down m (d + word_of_nat (Suc n)) (s + word_of_nat (Suc n)) (Suc n) =
    move_down ?m (d + word_of_nat n) (s + word_of_nat n) n" by simp
  also have "\<dots> = storen ?m d (loadn ?m s n)"
    by (rule Suc.IH) (use Suc.prems in simp_all)
  also have "\<dots> = storen ?m d (loadn m s n)" by (simp only: same)
  finally show ?case using Suc.prems(1) by (simp add: storen_snoc loadn_snoc)
qed

text \<open>
  Two offsets within the address space name the same byte only when they are equal as
  numbers.
\<close>

lemma u64_add_eq:
  fixes a b :: u64
  assumes "unat a + i < 2 ^ 64" and "unat b + j < 2 ^ 64"
  shows "a + word_of_nat i = b + word_of_nat j \<longleftrightarrow> unat a + i = unat b + j"
proof -
  have "unat (a + word_of_nat i) = unat a + i" "unat (b + word_of_nat j) = unat b + j"
    using assms by (simp_all add: unat_word_ariths unat_of_nat)
  then show ?thesis by (metis unsigned_word_eqI)
qed

lemma memmove_spec:
  assumes "unat src + unat n < 2 ^ 64" and "unat dst + unat n \<le> 2 ^ 64"
  shows "memmove m dst src n = storen m dst (loadn m src (unat n))"
proof (cases "src < dst \<and> src + ucast n > dst")
  case True
  have "dst + word_of_nat j \<noteq> src + word_of_nat i" if "i < j" "j < unat n" for i j
    using True that assms by (simp add: u64_add_eq word_less_nat_alt)
  then have "move_down m (dst + word_of_nat (unat n)) (src + word_of_nat (unat n)) (unat n) =
      storen m dst (loadn m src (unat n))"
    by (intro move_down_spec) (use assms in simp_all)
  with True show ?thesis by (auto simp: memmove_def)
next
  case False
  have "unat dst \<le> unat src \<or> unat src + unat n \<le> unat dst"
    using False assms(1) by (auto simp: word_less_nat_alt unat_word_ariths not_less)
  then have "dst + word_of_nat i \<noteq> src + word_of_nat j" if "i < j" "j < unat n" for i j
    using that assms by (auto simp: u64_add_eq)
  then have "move_up m dst src (unat n) = storen m dst (loadn m src (unat n))"
    by (intro move_up_spec) (use assms in simp_all)
  with False show ?thesis by (auto simp: memmove_def)
qed

section \<open>C strings\<close>

text \<open>
  The characters a bounded C string holds: those before the first NUL, at most \<open>n\<close>.
\<close>

definition cstr :: "nat \<Rightarrow> (nat \<Rightarrow> u8) \<Rightarrow> u8 list" where
  "cstr n s = takeWhile (\<lambda>b. b \<noteq> 0) (map s [0..<n])"

lemma map_upt_Suc_shift: "map s [0..<Suc n] = s 0 # map (s \<circ> Suc) [0..<n]"
  by (simp add: upt_conv_Cons map_Suc_upt [symmetric] del: upt_Suc)

lemma cstr_0 [simp]: "cstr 0 s = []"
  by (simp add: cstr_def)

lemma cstr_Suc: "cstr (Suc n) s = (if s 0 = 0 then [] else s 0 # cstr n (s \<circ> Suc))"
  unfolding cstr_def map_upt_Suc_shift by simp

lemma length_cstr: "length (cstr n s) \<le> n"
  using length_takeWhile_le [of "\<lambda>b. b \<noteq> 0" "map s [0..<n]"] by (simp add: cstr_def)

lemma cstr_eq_prefix:
  "k \<le> n \<Longrightarrow> (\<And>i. i < k \<Longrightarrow> s i \<noteq> 0) \<Longrightarrow> k = n \<or> s k = 0 \<Longrightarrow> cstr n s = map s [0..<k]"
proof (induction n arbitrary: k s)
  case 0
  then show ?case by simp
next
  case (Suc n)
  show ?case
  proof (cases k)
    case 0
    with Suc.prems(3) show ?thesis by (simp add: cstr_Suc)
  next
    case (Suc k')
    have "cstr n (s \<circ> Suc) = map (s \<circ> Suc) [0..<k']"
      by (rule Suc.IH) (use Suc.prems Suc in auto)
    moreover have "s 0 \<noteq> 0" using Suc.prems(2) Suc by simp
    ultimately show ?thesis by (simp only: Suc cstr_Suc map_upt_Suc_shift if_False)
  qed
qed

lemma strncmp_eq_0: "strncmp p q n = 0 \<longleftrightarrow> cstr n p = cstr n q"
proof (induction n arbitrary: p q)
  case 0
  then show ?case by simp
next
  case (Suc n)
  have "uint (p 0) - uint (q 0) = 0 \<longleftrightarrow> p 0 = q 0" by (simp add: word_uint_eq_iff)
  with Suc show ?case by (auto simp: cstr_Suc o_def)
qed

lemma memcmp_eq_0: "memcmp s1 s2 n = 0 \<longleftrightarrow> (\<forall>i<n. s1 i = s2 i)"
proof (induction n arbitrary: s1 s2)
  case 0
  then show ?case by simp
next
  case (Suc n)
  have "uint (s1 0) - uint (s2 0) = 0 \<longleftrightarrow> s1 0 = s2 0" by (simp add: word_uint_eq_iff)
  with Suc show ?case by (simp add: All_less_Suc2)
qed

lemma strncpy_at_apply:
  "strncpy_at s t i n x =
     (if i \<le> x \<and> x < i + n then (if \<forall>j. i \<le> j \<and> j < x \<longrightarrow> t j \<noteq> 0 then t x else 0) else s x)"
proof (induction n arbitrary: s i)
  case 0
  then show ?case by auto
next
  case (Suc n)
  show ?case
  proof (cases "t i = 0")
    case True
    then have "strncpy_at s t i (Suc n) x =
        (if x \<in> set [Suc i..<Suc i + n] then 0 else (s(i := 0)) x)"
      using fold_fill [of "\<lambda>k. k" 0 "[Suc i..<Suc i + n]" "s(i := 0)" x] by simp
    with True show ?thesis by (auto simp del: strncpy_at.simps)
  next
    case False
    have "(\<forall>j. i \<le> j \<and> j < x \<longrightarrow> t j \<noteq> 0) \<longleftrightarrow> (\<forall>j. Suc i \<le> j \<and> j < x \<longrightarrow> t j \<noteq> 0)"
      using False by (metis Suc_leI Suc_le_lessD le_eq_less_or_eq)
    moreover have "strncpy_at s t i (Suc n) = strncpy_at (s(i := t i)) t (Suc i) n"
      using False by simp
    ultimately show ?thesis using False by (auto simp: Suc.IH not_le less_Suc_eq)
  qed
qed

lemma strncpy_apply:
  "strncpy s t n x = (if x < nat n then (if \<forall>j<x. t j \<noteq> 0 then t x else 0) else s x)"
  by (simp add: strncpy_def strncpy_at_apply)

lemma cstr_cases:
  fixes s :: "nat \<Rightarrow> u8"
  obtains k where "k \<le> n" "\<And>i. i < k \<Longrightarrow> s i \<noteq> 0" "k = n \<or> s k = 0"
proof (cases "first_index (\<lambda>i. s i = 0) n")
  case None
  with that [of n] show ?thesis by auto
next
  case (Some k)
  with that [of k] show ?thesis by (auto simp: first_index_Some)
qed

lemma cstr_strncpy: "cstr n (strncpy s t (int n)) = cstr n t"
proof (rule cstr_cases [of n t])
  fix k assume k: "k \<le> n" "\<And>i. i < k \<Longrightarrow> t i \<noteq> 0" "k = n \<or> t k = 0"
  have same: "strncpy s t (int n) i = t i" if "i \<le> k" "i < n" for i
    using that k(2) by (simp add: strncpy_apply)
  have "cstr n (strncpy s t (int n)) = map (strncpy s t (int n)) [0..<k]"
    by (rule cstr_eq_prefix) (use k same in \<open>auto simp: le_eq_less_or_eq\<close>)
  also have "\<dots> = map t [0..<k]" using same k(1) by simp
  also have "\<dots> = cstr n t" by (rule cstr_eq_prefix [symmetric]) (use k in auto)
  finally show ?thesis .
qed

lemma safestrcpy_at_apply:
  assumes "k \<le> n" and "\<And>j. i \<le> j \<Longrightarrow> j < i + k \<Longrightarrow> t j \<noteq> 0" and "k = n \<or> t (i + k) = 0"
  shows "i \<le> x \<Longrightarrow> x < i + k \<Longrightarrow> safestrcpy_at s t i n x = t x"
    and "safestrcpy_at s t i n (i + k) = 0"
    and "x < i \<or> i + n < x \<Longrightarrow> safestrcpy_at s t i n x = s x"
proof -
  have "(i \<le> x \<and> x < i + k \<longrightarrow> safestrcpy_at s t i n x = t x) \<and>
      safestrcpy_at s t i n (i + k) = 0 \<and> (x < i \<or> i + n < x \<longrightarrow> safestrcpy_at s t i n x = s x)"
    using assms
  proof (induction n arbitrary: s i k)
    case 0
    then show ?case by auto
  next
    case (Suc n)
    show ?case
    proof (cases k)
      case 0
      with Suc.prems(3) show ?thesis by auto
    next
      case (Suc k')
      then have ti: "t i \<noteq> 0" using Suc.prems(2) [of i] by simp
      then have eq: "safestrcpy_at s t i (Suc n) = safestrcpy_at (s(i := t i)) t (Suc i) n" by simp
      have "(Suc i \<le> x \<and> x < Suc i + k' \<longrightarrow> safestrcpy_at (s(i := t i)) t (Suc i) n x = t x) \<and>
        safestrcpy_at (s(i := t i)) t (Suc i) n (Suc i + k') = 0 \<and>
        (x < Suc i \<or> Suc i + n < x \<longrightarrow> safestrcpy_at (s(i := t i)) t (Suc i) n x = (s(i := t i)) x)"
        by (rule Suc.IH) (use Suc.prems Suc in auto)
      then show ?thesis unfolding eq Suc by (cases "x = i") auto
    qed
  qed
  then show "i \<le> x \<Longrightarrow> x < i + k \<Longrightarrow> safestrcpy_at s t i n x = t x"
    and "safestrcpy_at s t i n (i + k) = 0"
    and "x < i \<or> i + n < x \<Longrightarrow> safestrcpy_at s t i n x = s x" by blast+
qed

lemma safestrcpy_spec:
  assumes "0 < n"
  shows "cstr n (safestrcpy s t (int n)) = cstr (n - 1) t"
    and "\<exists>k<n. safestrcpy s t (int n) k = 0"
    and "n \<le> x \<Longrightarrow> safestrcpy s t (int n) x = s x"
proof -
  have eq: "safestrcpy s t (int n) = safestrcpy_at s t 0 (n - 1)"
    using assms by (simp add: safestrcpy_def)
  obtain k where k: "k \<le> n - 1" "\<And>i. i < k \<Longrightarrow> t i \<noteq> 0" "k = n - 1 \<or> t k = 0"
    using cstr_cases [of "n - 1" t] by blast
  have copied: "safestrcpy s t (int n) i = t i" if "i < k" for i
    unfolding eq by (rule safestrcpy_at_apply(1) [of k]) (use k that in auto)
  have nul: "safestrcpy s t (int n) k = 0"
    using safestrcpy_at_apply(2) [of k "n - 1" 0 t s] k by (simp add: eq)
  show "\<exists>k<n. safestrcpy s t (int n) k = 0" using nul k(1) assms by (intro exI [of _ k]) simp
  have "cstr n (safestrcpy s t (int n)) = map (safestrcpy s t (int n)) [0..<k]"
    by (rule cstr_eq_prefix) (use k copied nul in auto)
  also have "\<dots> = map t [0..<k]" using copied by simp
  also have "\<dots> = cstr (n - 1) t" by (rule cstr_eq_prefix [symmetric]) (use k in auto)
  finally show "cstr n (safestrcpy s t (int n)) = cstr (n - 1) t" .
  show "n \<le> x \<Longrightarrow> safestrcpy s t (int n) x = s x"
    unfolding eq by (rule safestrcpy_at_apply(3) [of k]) (use k assms in auto)
qed

lemma strlen_from_Some:
  "n \<le> k \<Longrightarrow> (\<And>i. n \<le> i \<Longrightarrow> i < k \<Longrightarrow> s i \<noteq> 0) \<Longrightarrow> s k = 0 \<Longrightarrow> strlen_from s n = Some k"
proof (induction "k - n" arbitrary: n)
  case 0
  then show ?case by (simp add: strlen_from.simps)
next
  case (Suc d)
  then have "s n \<noteq> 0" by simp
  moreover have "strlen_from s (Suc n) = Some k" by (rule Suc.hyps(1)) (use Suc in auto)
  ultimately show ?case by (simp add: strlen_from.simps [of s n])
qed

lemma strlen_from_returns:
  assumes "strlen_from s n = Some k"
  shows "n \<le> k \<and> s k = 0 \<and> (\<forall>i. n \<le> i \<and> i < k \<longrightarrow> s i \<noteq> 0)"
proof (rule strlen_from.raw_induct
    [where P = "\<lambda>s n k. n \<le> k \<and> s k = 0 \<and> (\<forall>i. n \<le> i \<and> i < k \<longrightarrow> s i \<noteq> 0)", OF _ assms])
  fix f s n k
  assume IH: "\<And>s n k. f s n = Some k \<Longrightarrow> n \<le> k \<and> s k = 0 \<and> (\<forall>i. n \<le> i \<and> i < k \<longrightarrow> s i \<noteq> 0)"
    and eq: "(if s n = (0::u8) then Some n else f s (Suc n)) = Some k"
  show "n \<le> k \<and> s k = 0 \<and> (\<forall>i. n \<le> i \<and> i < k \<longrightarrow> s i \<noteq> 0)"
  proof (cases "s n = 0")
    case True
    with eq show ?thesis by auto
  next
    case False
    with eq have "Suc n \<le> k \<and> s k = 0 \<and> (\<forall>i. Suc n \<le> i \<and> i < k \<longrightarrow> s i \<noteq> 0)"
      using IH by simp
    with False show ?thesis by (metis Suc_leD Suc_leI le_eq_less_or_eq)
  qed
qed

lemma strlen_spec: "strlen s = Some k \<longleftrightarrow> s k = 0 \<and> (\<forall>i<k. s i \<noteq> 0)"
  using strlen_from_returns [of s 0 k] strlen_from_Some [of 0 k s] by (auto simp: strlen_def)

section \<open>Properties\<close>

text \<open>
  C23: \<open>memmove\<close> copies the n bytes that were at \<open>src\<close> before the call to \<open>dst\<close> and changes
  nothing else, whether or not the two ranges overlap, for ranges that do not wrap
  around the address space.
\<close>

theorem memmove_overlap:
  assumes "unat src + unat n < 2 ^ 64" and "unat dst + unat n \<le> 2 ^ 64"
  shows "memmove m dst src n = storen m dst (loadn m src (unat n))"
  using assms by (rule memmove_spec)

theorem memmove_overlap_witness:
  "memmove ucast 1 0 3 = storen ucast 1 [0, 1, 2]"
  using memmove_overlap [of 0 3 1 ucast] by (simp add: loadn_def upt_rec)

text \<open>
  C24: \<open>safestrcpy\<close> leaves a terminated string within the n bytes of the destination, equal
  to the source cut at n-1 characters, and touches nothing beyond them.
\<close>

theorem safestrcpy_terminates:
  assumes "0 < n"
  shows "cstr n (safestrcpy s t (int n)) = cstr (n - 1) t \<and> (\<exists>k<n. safestrcpy s t (int n) k = 0) \<and>
    (\<forall>x\<ge>n. safestrcpy s t (int n) x = s x)"
  using safestrcpy_spec [OF assms] by blast

theorem safestrcpy_terminates_witness:
  "cstr 3 (safestrcpy (\<lambda>_. 9) (\<lambda>_. 7) (int 3)) = [7, 7]"
  using safestrcpy_terminates [of 3 "\<lambda>_. 9" "\<lambda>_. 7"] by (simp add: cstr_def upt_rec)

end
