(* ===== verification/Kalloc.thy ===== *)
theory Kalloc
  imports Memlayout Strings
begin

text \<open>
  kernel/kalloc.c, the physical page allocator.  The free list lives in the free pages
  themselves: the first eight bytes of a free page hold the address of the next one, as
  in \<open>struct run\<close>.  The invariant reads the list out of memory; the allocator's
  operations are shown to move pages between the list and its clients without touching
  any other byte.
\<close>

section \<open>State and operations\<close>

record kmem_state =
  mem :: memory        \<comment> \<open>physical memory\<close>
  freelist :: u64      \<comment> \<open>\<open>kmem.freelist\<close>\<close>
  kend :: u64          \<comment> \<open>\<open>end\<close>, the first address after the kernel, set by the linker\<close>

definition kfree :: "u64 \<Rightarrow> 'z kmem_state_scheme \<Rightarrow> 'z kmem_state_scheme stop + 'z kmem_state_scheme" where
  "kfree pa s =
     (if unat pa mod PGSIZE \<noteq> 0 \<or> pa < kend s \<or> pa \<ge> PHYSTOP then Inl (Panic ''kfree'')
      else let m = memset (mem s) pa 1 PGSIZE
           in Inr (s\<lparr>mem := store64 m pa (freelist s), freelist := pa\<rparr>))"

definition kalloc :: "'z kmem_state_scheme \<Rightarrow> u64 \<times> 'z kmem_state_scheme" where
  "kalloc s =
     (let r = freelist s in
      if r \<noteq> 0
      then (r, s\<lparr>freelist := load64 (mem s) r, mem := memset (mem s) r 5 PGSIZE\<rparr>)
      else (r, s))"

function freerange_from :: "u64 \<Rightarrow> u64 \<Rightarrow> 'z kmem_state_scheme \<Rightarrow> 'z kmem_state_scheme stop + 'z kmem_state_scheme" where
  "freerange_from p pa_end s =
     (if unat p + PGSIZE \<le> unat pa_end
      then bindE (kfree p s) (freerange_from (p + PGSIZE) pa_end)
      else Inr s)"
  by pat_completeness auto
termination
proof (relation "measure (\<lambda>(p, pa_end, s). unat pa_end - unat p)", goal_cases)
  case 1
  then show ?case by simp
next
  case (2 p pa_end s s')
  then have "unat (p + PGSIZE) = unat p + PGSIZE"
    using unsigned_less [of pa_end, where ?'a = nat] by (simp add: unat_word_ariths)
  with 2 show ?case by simp
qed

declare freerange_from.simps [simp del]

definition freerange :: "u64 \<Rightarrow> u64 \<Rightarrow> 'z kmem_state_scheme \<Rightarrow> 'z kmem_state_scheme stop + 'z kmem_state_scheme" where
  "freerange pa_start pa_end s = freerange_from (PGROUNDUP pa_start) pa_end s"

definition kinit :: "'z kmem_state_scheme \<Rightarrow> 'z kmem_state_scheme stop + 'z kmem_state_scheme" where
  "kinit s = freerange (kend s) PHYSTOP s"

section \<open>The free list invariant\<close>

text \<open>A page the allocator may own: aligned and between the kernel image and the end of RAM.\<close>

definition page_ok :: "'z kmem_state_scheme \<Rightarrow> u64 \<Rightarrow> bool" where
  "page_ok s p \<longleftrightarrow> page_aligned p \<and> kend s \<le> p \<and> p < PHYSTOP"

text \<open>The list of pages reached from \<open>r\<close> through the \<open>next\<close> fields.\<close>

fun runs :: "memory \<Rightarrow> u64 \<Rightarrow> u64 list \<Rightarrow> bool" where
  "runs m r [] \<longleftrightarrow> r = 0"
| "runs m r (p # ps) \<longleftrightarrow> r = p \<and> p \<noteq> 0 \<and> runs m (load64 m p) ps"

definition kmem_inv :: "'z kmem_state_scheme \<Rightarrow> u64 list \<Rightarrow> bool" where
  "kmem_inv s ps \<longleftrightarrow> runs (mem s) (freelist s) ps \<and> distinct ps \<and>
     (\<forall>p\<in>set ps. page_ok s p) \<and> 0 < kend s"

definition outside_page :: "u64 \<Rightarrow> memory \<Rightarrow> memory \<Rightarrow> bool" where
  "outside_page p m m' \<longleftrightarrow> (\<forall>x. PGROUNDDOWN x \<noteq> p \<longrightarrow> m' x = m x)"

lemma page_byte: "page_aligned p \<Longrightarrow> i < PGSIZE \<Longrightarrow> PGROUNDDOWN (p + word_of_nat i) = p"
  by (subst in_page_iff [symmetric]) (simp_all add: unat_of_nat)

lemma load64_page_cong:
  "page_aligned q \<Longrightarrow> (\<And>x. PGROUNDDOWN x = q \<Longrightarrow> m x = m' x) \<Longrightarrow> load64 m q = load64 m' q"
  by (rule load64_cong) (simp add: page_byte)

lemma runs_cong:
  assumes "\<And>q. q \<in> set ps \<Longrightarrow> page_aligned q"
    and "\<And>x q. q \<in> set ps \<Longrightarrow> PGROUNDDOWN x = q \<Longrightarrow> m x = m' x"
  shows "runs m r ps = runs m' r ps"
  using assms
proof (induction ps arbitrary: r)
  case Nil
  then show ?case by simp
next
  case (Cons p ps)
  have "load64 m p = load64 m' p" by (rule load64_page_cong) (use Cons.prems in auto)
  moreover have "runs m r ps = runs m' r ps" for r by (rule Cons.IH) (use Cons.prems in auto)
  ultimately show ?case by simp
qed

lemma page_ok_nonzero: "0 < kend s \<Longrightarrow> page_ok s p \<Longrightarrow> p \<noteq> 0"
  by (auto simp: page_ok_def)

lemma runs_unique: "runs m r ps \<Longrightarrow> runs m r qs \<Longrightarrow> ps = qs"
proof (induction ps arbitrary: r qs)
  case Nil
  then show ?case by (cases qs) auto
next
  case (Cons p ps)
  then show ?case by (cases qs) auto
qed

lemma kmem_inv_unique: "kmem_inv s ps \<Longrightarrow> kmem_inv s qs \<Longrightarrow> ps = qs"
  by (auto simp: kmem_inv_def intro: runs_unique)

text \<open>Clients that write only outside the free pages keep the invariant.\<close>

lemma kmem_inv_write:
  assumes "kmem_inv s ps" and "\<And>x. PGROUNDDOWN x \<in> set ps \<Longrightarrow> m x = mem s x"
  shows "kmem_inv (s\<lparr>mem := m\<rparr>) ps"
proof -
  have "runs m (freelist s) ps = runs (mem s) (freelist s) ps"
    by (rule runs_cong) (use assms in \<open>auto simp: kmem_inv_def page_ok_def\<close>)
  with assms(1) show ?thesis by (simp add: kmem_inv_def page_ok_def)
qed

lemma memset_page:
  "page_aligned p \<Longrightarrow> memset m p c PGSIZE x = (if PGROUNDDOWN x = p then ucast c else (m x :: u8))"
  by (simp add: memset_u64 in_page_iff)

lemma store64_page:
  "page_aligned p \<Longrightarrow> PGROUNDDOWN x \<noteq> p \<Longrightarrow> store64 m p v x = m x"
  by (rule store64_outside) (simp flip: in_page_iff add: not_less)

section \<open>Allocation and freeing\<close>

lemma kalloc_empty: "kmem_inv s [] \<Longrightarrow> kalloc s = (0, s)"
  by (simp add: kmem_inv_def kalloc_def)

lemma kalloc_page:
  assumes "kmem_inv s (p # ps)"
  shows "\<exists>s'. kalloc s = (p, s') \<and> kmem_inv s' ps \<and> kend s' = kend s \<and>
    outside_page p (mem s) (mem s') \<and> (\<forall>x. PGROUNDDOWN x = p \<longrightarrow> mem s' x = 5)"
proof -
  let ?s = "s\<lparr>freelist := load64 (mem s) p, mem := memset (mem s) p 5 PGSIZE\<rparr>"
  have al: "page_aligned p" using assms by (simp add: kmem_inv_def page_ok_def)
  have "kmem_inv (s\<lparr>freelist := load64 (mem s) p\<rparr>) ps"
    using assms by (auto simp: kmem_inv_def page_ok_def)
  then have "kmem_inv (s\<lparr>freelist := load64 (mem s) p, mem := memset (mem s) p 5 PGSIZE\<rparr>) ps"
    using assms by (intro kmem_inv_write) (auto simp: memset_page [OF al] kmem_inv_def)
  moreover have "kalloc s = (p, ?s)" using assms by (simp add: kmem_inv_def kalloc_def)
  ultimately show ?thesis by (simp add: outside_page_def memset_page [OF al])
qed

lemma kfree_page:
  assumes "kmem_inv s ps" and "page_ok s p" and "p \<notin> set ps"
  shows "\<exists>s'. kfree p s = Inr s' \<and> kmem_inv s' (p # ps) \<and> kend s' = kend s \<and>
    outside_page p (mem s) (mem s')"
proof -
  let ?m = "store64 (memset (mem s) p 1 PGSIZE) p (freelist s)"
  have al: "page_aligned p" using assms(2) by (simp add: page_ok_def)
  have out: "outside_page p (mem s) ?m"
    by (simp add: outside_page_def store64_page [OF al] memset_page [OF al])
  have "runs ?m (freelist s) ps = runs (mem s) (freelist s) ps"
    by (rule runs_cong) (use assms out in \<open>auto simp: kmem_inv_def page_ok_def outside_page_def\<close>)
  then have "kmem_inv (s\<lparr>mem := ?m, freelist := p\<rparr>) (p # ps)"
    using assms page_ok_nonzero [of s p] by (simp add: kmem_inv_def page_ok_def)
  moreover have "kfree p s = Inr (s\<lparr>mem := ?m, freelist := p\<rparr>)"
    using assms(2) by (auto simp: kfree_def page_ok_def page_aligned_def)
  ultimately show ?thesis using out by simp
qed


section \<open>Initialisation\<close>

lemma aligned_less_add:
  assumes "page_aligned p" and "page_aligned q" and "unat p + PGSIZE < 2 ^ 64"
  shows "q < p + PGSIZE \<longleftrightarrow> q < p \<or> q = p"
proof -
  obtain i j where ij: "unat p = i * PGSIZE" "unat q = j * PGSIZE"
    using assms(1,2) by (metis page_alignedE)
  have "unat (p + PGSIZE) = unat p + PGSIZE" using assms(3) by (simp add: unat_word_ariths)
  then have "q < p + PGSIZE \<longleftrightarrow> j < Suc i" "q < p \<longleftrightarrow> j < i" "q = p \<longleftrightarrow> j = i"
    using ij by (auto simp: word_less_nat_alt word_unat_eq_iff)
  then show ?thesis by auto
qed

lemma page_aligned_add: "page_aligned p \<Longrightarrow> unat p + PGSIZE < 2 ^ 64 \<Longrightarrow> page_aligned (p + PGSIZE)"
  by (simp add: page_aligned_def unat_word_ariths)

lemma page_ok_kend_cong: "kend s' = kend s \<Longrightarrow> page_ok s' = page_ok s"
  by (simp add: page_ok_def fun_eq_iff)

lemma freerange_from_all:
  assumes "page_aligned p" and "kend s \<le> p" and "kmem_inv s ps"
    and "set ps = {q. page_ok s q \<and> q < p}" and "e = PHYSTOP"
  shows "\<exists>s' qs. freerange_from p e s = Inr s' \<and> kmem_inv s' qs \<and>
    set qs = {q. page_ok s q} \<and> kend s' = kend s"
  using assms
proof (induction p e s arbitrary: ps rule: freerange_from.induct)
  case (1 p e s)
  note al = \<open>page_aligned p\<close> and e = \<open>e = PHYSTOP\<close>
  show ?case
  proof (cases "unat p + PGSIZE \<le> unat e")
    case True
    then have bound: "unat p + PGSIZE < 2 ^ 64" and "p < PHYSTOP"
      using e by (simp_all add: word_less_nat_alt)
    then have ok: "page_ok s p" using al \<open>kend s \<le> p\<close> by (simp add: page_ok_def)
    have "p \<notin> set ps" using "1.prems"(4) by simp
    then obtain t where t: "kfree p s = Inr t" "kmem_inv t (p # ps)" "kend t = kend s"
      using kfree_page [OF \<open>kmem_inv s ps\<close> ok] by blast
    have al': "page_aligned (p + PGSIZE)" by (rule page_aligned_add [OF al bound])
    have "kend t \<le> p + PGSIZE"
      using \<open>kend s \<le> p\<close> t(3) bound by (simp add: word_le_nat_alt unat_word_ariths)
    moreover have "page_ok t q \<and> q < p + PGSIZE \<longleftrightarrow> page_ok s q \<and> (q < p \<or> q = p)" for q
    proof (cases "page_ok s q")
      case True
      then have "page_aligned q" by (simp add: page_ok_def)
      then show ?thesis
        using aligned_less_add [OF al _ bound] by (simp only: page_ok_kend_cong [OF t(3)] simp_thms)
    qed (simp add: page_ok_kend_cong [OF t(3)])
    then have "set (p # ps) = {q. page_ok t q \<and> q < p + PGSIZE}"
      using ok "1.prems"(4) by auto
    ultimately obtain s' qs where s': "freerange_from (p + PGSIZE) e t = Inr s'"
        "kmem_inv s' qs" "set qs = {q. page_ok t q}" "kend s' = kend t"
      using "1.IH" [OF True t(1) al' _ t(2) _ e] by blast
    then have "freerange_from p e s = Inr s'"
      using True t(1) by (simp add: freerange_from.simps [of p e s])
    then show ?thesis using s' t(3) page_ok_kend_cong [OF t(3)] by auto
  next
    case False
    obtain i where "unat p = i * PGSIZE" using al by (rule page_alignedE)
    with False e have "PHYSTOP \<le> p" by (simp add: word_le_nat_alt)
    then have "q < p" if "page_ok s q" for q
      using that less_le_trans unfolding page_ok_def by blast
    then have "set ps = {q. page_ok s q}" using "1.prems"(4) by blast
    moreover have "freerange_from p e s = Inr s" using False by (simp add: freerange_from.simps [of p e s])
    ultimately show ?thesis using \<open>kmem_inv s ps\<close> by auto
  qed
qed

lemma kinit_all:
  assumes "freelist s = 0" and "0 < kend s" and "kend s \<le> PHYSTOP"
  shows "\<exists>s' ps. kinit s = Inr s' \<and> kmem_inv s' ps \<and> set ps = {q. page_ok s q} \<and> kend s' = kend s"
proof -
  let ?p = "PGROUNDUP (kend s)"
  have p: "unat ?p = (unat (kend s) + 4095) div PGSIZE * PGSIZE"
    using assms(3) by (intro unat_PGROUNDUP) (simp add: word_le_nat_alt)
  have "kend s \<le> ?p" using p by (simp add: word_le_nat_alt)
  moreover have "\<not> (page_ok s q \<and> q < ?p)" for q
  proof
    assume q: "page_ok s q \<and> q < ?p"
    then obtain j where "unat q = j * PGSIZE" by (auto simp: page_ok_def page_aligned_def)
    with q p show False by (auto simp: page_ok_def word_less_nat_alt word_le_nat_alt)
  qed
  then have "set [] = {q. page_ok s q \<and> q < ?p}" by auto
  ultimately show ?thesis
    unfolding kinit_def freerange_def
    by (intro freerange_from_all [where ps = "[]"]) (use assms in \<open>simp_all add: kmem_inv_def\<close>)
qed

section \<open>The allocator as an interface\<close>

text \<open>
  What the rest of the kernel relies on: a pool of free pages, from which \<open>alloc\<close>
  takes one (or returns 0 when there is none) and to which \<open>free\<close> gives one back.
\<close>

fun take_pages :: "('s \<Rightarrow> u64 \<times> 's) \<Rightarrow> nat \<Rightarrow> 's \<Rightarrow> u64 list \<times> 's" where
  "take_pages alloc 0 s = ([], s)"
| "take_pages alloc (Suc n) s =
     (let (p, s) = alloc s; (ps, s) = take_pages alloc n s in (p # ps, s))"

locale page_pool =
  fixes pool :: "'s \<Rightarrow> u64 set \<Rightarrow> bool"
    and ok :: "'s \<Rightarrow> u64 \<Rightarrow> bool"
    and alloc :: "'s \<Rightarrow> u64 \<times> 's"
    and free :: "u64 \<Rightarrow> 's \<Rightarrow> 'e + 's"
  assumes pool_ok: "pool s F \<Longrightarrow> p \<in> F \<Longrightarrow> ok s p \<and> p \<noteq> 0"
    and pool_finite: "pool s F \<Longrightarrow> finite F"
    and alloc_none: "pool s {} \<Longrightarrow> alloc s = (0, s)"
    and alloc_some: "pool s F \<Longrightarrow> F \<noteq> {} \<Longrightarrow>
      \<exists>p s'. alloc s = (p, s') \<and> p \<in> F \<and> pool s' (F - {p}) \<and> ok s' = ok s"
    and free_some: "pool s F \<Longrightarrow> ok s p \<Longrightarrow> p \<notin> F \<Longrightarrow>
      \<exists>s'. free p s = Inr s' \<and> pool s' (insert p F) \<and> ok s' = ok s"
begin

lemma alloc_zero_iff: "pool s F \<Longrightarrow> fst (alloc s) = 0 \<longleftrightarrow> F = {}"
  using alloc_none [of s] alloc_some [of s F] pool_ok [of s F] by (cases "F = {}") auto

lemma alloc_then_free:
  assumes "pool s F" and "F \<noteq> {}" and "alloc s = (p, t)"
  shows "\<exists>s'. free p t = Inr s' \<and> pool s' F"
proof -
  obtain p' t' where "alloc s = (p', t')" "p' \<in> F" "pool t' (F - {p'})" "ok t' = ok s"
    using alloc_some [OF assms(1,2)] by blast
  with assms show ?thesis using free_some [of t "F - {p}" p] pool_ok [of s F p]
    by (auto simp: insert_absorb)
qed

lemma take_pages_distinct:
  "pool s F \<Longrightarrow> n \<le> card F \<Longrightarrow> take_pages alloc n s = (ps, s') \<Longrightarrow>
     length ps = n \<and> distinct ps \<and> set ps \<subseteq> F \<and> pool s' (F - set ps)"
proof (induction n arbitrary: s F ps)
  case 0
  then show ?case by simp
next
  case (Suc n)
  have "F \<noteq> {}" using Suc.prems(2) by auto
  then obtain p t where p: "alloc s = (p, t)" "p \<in> F" "pool t (F - {p})"
    using alloc_some [OF Suc.prems(1)] by blast
  obtain qs where qs: "take_pages alloc n t = (qs, s')" "ps = p # qs"
    using Suc.prems(3) p(1) by (auto simp: Let_def split: prod.splits)
  have "n \<le> card (F - {p})" using Suc.prems(2) p(2) pool_finite [OF Suc.prems(1)] by simp
  then have "length qs = n \<and> distinct qs \<and> set qs \<subseteq> F - {p} \<and> pool s' (F - {p} - set qs)"
    using Suc.IH [OF p(3) _ qs(1)] by blast
  moreover have "F - {p} - set qs = F - set ps" using qs(2) by auto
  ultimately show ?case using p(2) qs(2) by auto
qed

end

definition kmem_pool :: "'z kmem_state_scheme \<Rightarrow> u64 set \<Rightarrow> bool" where
  "kmem_pool s F \<longleftrightarrow> (\<exists>ps. kmem_inv s ps \<and> set ps = F)"

interpretation kmem: page_pool kmem_pool page_ok kalloc kfree
proof unfold_locales
  show "kmem_pool s F \<Longrightarrow> p \<in> F \<Longrightarrow> page_ok s p \<and> p \<noteq> 0" for s :: "'a kmem_state_scheme" and F p
    using page_ok_nonzero by (auto simp: kmem_pool_def kmem_inv_def)
  show "kmem_pool s F \<Longrightarrow> finite F" for s :: "'a kmem_state_scheme" and F
    by (auto simp: kmem_pool_def)
  show "kmem_pool s {} \<Longrightarrow> kalloc s = (0, s)" for s :: "'a kmem_state_scheme"
    by (auto simp: kmem_pool_def kalloc_empty)
  show "\<exists>p s'. kalloc s = (p, s') \<and> p \<in> F \<and> kmem_pool s' (F - {p}) \<and> page_ok s' = page_ok s"
    if pool: "kmem_pool s F" and ne: "F \<noteq> {}" for s :: "'a kmem_state_scheme" and F
  proof -
    obtain p ps where ps: "kmem_inv s (p # ps)" "F = set (p # ps)"
      using pool ne unfolding kmem_pool_def by (metis list.exhaust set_empty)
    then have "F - {p} = set ps" by (auto simp: kmem_inv_def)
    with kalloc_page [OF ps(1)] ps(2) show ?thesis
      by (metis kmem_pool_def list.set_intros(1) page_ok_kend_cong)
  qed
  show "\<exists>s'. kfree p s = Inr s' \<and> kmem_pool s' (insert p F) \<and> page_ok s' = page_ok s"
    if pool: "kmem_pool s F" and "page_ok s p" "p \<notin> F" for s :: "'a kmem_state_scheme" and F p
  proof -
    obtain ps where ps: "kmem_inv s ps" "F = set ps" using pool by (auto simp: kmem_pool_def)
    then obtain s' where "kfree p s = Inr s'" "kmem_inv s' (p # ps)" "kend s' = kend s"
      using kfree_page \<open>page_ok s p\<close> \<open>p \<notin> F\<close> by blast
    then show ?thesis using ps(2) by (metis kmem_pool_def list.simps(15) page_ok_kend_cong)
  qed
qed

section \<open>Properties\<close>

text \<open>A state with an empty free list and two pages of RAM above the kernel.\<close>

definition kmem0 :: kmem_state where
  "kmem0 = \<lparr>mem = (\<lambda>_. 0), freelist = 0, kend = 0x87ffe000\<rparr>"

text \<open>
  C16: \<open>kinit\<close> succeeds and the free list then holds every page between the end of the
  kernel and PHYSTOP exactly once.
\<close>

theorem kinit_frees_all_pages:
  assumes "freelist s = 0" and "0 < kend s" and "kend s \<le> PHYSTOP"
  shows "\<exists>s' ps. kinit s = Inr s' \<and> kmem_inv s' ps \<and> distinct ps \<and> set ps = {q. page_ok s q} \<and> kend s' = kend s"
  using kinit_all [OF assms] by (auto simp: kmem_inv_def)

theorem kinit_frees_all_pages_witness:
  "\<exists>s' ps. kinit kmem0 = Inr s' \<and> kmem_inv s' ps \<and> set ps = {q. page_ok kmem0 q}"
  using kinit_frees_all_pages [of kmem0] by (auto simp: kmem0_def)

lemma kmem0_pages: "kmem_pool (kmem0\<lparr>freelist := 0x87ffe000\<rparr>) {0x87ffe000}"
proof -
  have "load64 (\<lambda>_. 0) a = 0" for a :: u64
    by (simp add: load64_def loadn_def le_decode_zeroes map_replicate_const)
  then have "kmem_inv (kmem0\<lparr>freelist := 0x87ffe000\<rparr>) [0x87ffe000]"
    by (simp add: kmem_inv_def kmem0_def page_ok_def page_aligned_def)
  then show ?thesis by (auto simp: kmem_pool_def)
qed

text \<open>
  C17: Successive \<open>kalloc\<close> calls return pairwise different free pages, and the pool then
  holds exactly the remaining ones: a page is never handed out twice.
\<close>

theorem kalloc_never_twice:
  assumes "kmem_pool s F" and "n \<le> card F" and "take_pages kalloc n s = (ps, s')"
  shows "length ps = n \<and> distinct ps \<and> set ps \<subseteq> F \<and> kmem_pool s' (F - set ps)"
  using assms by (rule kmem.take_pages_distinct)

theorem kalloc_never_twice_witness:
  "\<exists>s'. take_pages kalloc 1 (kmem0\<lparr>freelist := 0x87ffe000\<rparr>) = ([0x87ffe000], s') \<and> kmem_pool s' {}"
proof -
  obtain ps s' where t: "take_pages kalloc 1 (kmem0\<lparr>freelist := 0x87ffe000\<rparr>) = (ps, s')" by fastforce
  have "length ps = 1 \<and> distinct ps \<and> set ps \<subseteq> {0x87ffe000} \<and> kmem_pool s' ({0x87ffe000} - set ps)"
    using kalloc_never_twice [OF kmem0_pages _ t] by simp
  then show ?thesis using t by (cases ps) auto
qed

text \<open>
  C18: On a consistent free list, \<open>kalloc\<close> returns 0 exactly when no page is free; otherwise
  it returns the first page, filled with 5s, removes it from the list and changes no byte
  of any other page.
\<close>

theorem kalloc_takes_first:
  assumes "kmem_inv s ps"
  shows "case ps of
      [] \<Rightarrow> kalloc s = (0, s)
    | p # qs \<Rightarrow> \<exists>s'. kalloc s = (p, s') \<and> p \<noteq> 0 \<and> kmem_inv s' qs \<and> outside_page p (mem s) (mem s') \<and>
        loadn (mem s') p PGSIZE = replicate PGSIZE 5"
proof (cases ps)
  case Nil
  then show ?thesis using assms by (simp add: kalloc_empty)
next
  case (Cons p qs)
  then have inv: "kmem_inv s (p # qs)" using assms by simp
  then have p: "page_aligned p" "p \<noteq> 0" by (simp_all add: kmem_inv_def page_ok_def)
  obtain s' where s': "kalloc s = (p, s')" "kmem_inv s' qs" "outside_page p (mem s) (mem s')"
      "\<forall>x. PGROUNDDOWN x = p \<longrightarrow> mem s' x = 5"
    using kalloc_page [OF inv] by blast
  have "loadn (mem s') p PGSIZE = replicate PGSIZE 5"
    by (rule nth_equalityI) (use s'(4) page_byte [OF p(1)] in \<open>auto simp: nth_loadn\<close>)
  then show ?thesis using s' p Cons by auto
qed

theorem kalloc_takes_first_witness:
  "kalloc kmem0 = (0, kmem0)"
  using kalloc_takes_first [of kmem0 "[]"] by (simp add: kmem_inv_def kmem0_def)


end
