(* ===== verification/Vm.thy ===== *)
theory Vm
  imports Kalloc
begin

text \<open>
  kernel/vm.c: the three-level Sv39 page tables, the allocation, copying and freeing of
  user memory, and the copies between the kernel and user space.  Page tables are read
  from and written to byte-addressed physical memory through 64-bit loads and stores at
  the addresses the C code computes.  Functions that return a null pointer or an error
  code return it as a value; panics stop the computation.
\<close>

type_synonym 'z km = "'z kmem_state_scheme"

section \<open>Walking and changing page tables\<close>

text \<open>
  \<open>walk\<close> descends from level 2 to level 0.  It returns the address of the level-0
  entry for the virtual address, or None (the null pointer) when a page-table page is
  missing and either \<open>alloc\<close> is false or no page is left.
\<close>

fun walk_level :: "nat \<Rightarrow> u64 \<Rightarrow> u64 \<Rightarrow> bool \<Rightarrow> 'z km \<Rightarrow> u64 option \<times> 'z km" where
  "walk_level 0 pagetable va alloc s = (Some (pagetable + 8 * PX 0 va), s)"
| "walk_level (Suc l) pagetable va alloc s =
     (let pte = pagetable + 8 * PX (Suc l) va in
      if load64 (mem s) pte AND PTE_V \<noteq> 0
      then walk_level l (PTE2PA (load64 (mem s) pte)) va alloc s
      else if \<not> alloc then (None, s)
      else let (pt, s) = kalloc s in
        if pt = 0 then (None, s)
        else let m = memset (mem s) pt 0 PGSIZE
             in walk_level l pt va alloc (s\<lparr>mem := store64 m pte (PA2PTE pt OR PTE_V)\<rparr>))"

definition walk :: "u64 \<Rightarrow> u64 \<Rightarrow> bool \<Rightarrow> 'z km \<Rightarrow> 'z km stop + u64 option \<times> 'z km" where
  "walk pagetable va alloc s =
     (if va \<ge> MAXVA then Inl (Panic ''walk'') else Inr (walk_level 2 pagetable va alloc s))"

text \<open>\<open>walkaddr\<close> only reads; it returns 0 for an address that is not mapped for the user.\<close>

definition walkaddr :: "u64 \<Rightarrow> u64 \<Rightarrow> 'z km \<Rightarrow> u64" where
  "walkaddr pagetable va s =
     (if va \<ge> MAXVA then 0
      else case fst (walk_level 2 pagetable va False s) of
        None \<Rightarrow> 0
      | Some pte \<Rightarrow>
          (let e = load64 (mem s) pte in
           if e AND PTE_V = 0 then 0
           else if e AND PTE_U = 0 then 0
           else PTE2PA e))"

lemma walk_below_MAXVA: "walk pt va alloc s = Inr r \<Longrightarrow> va < MAXVA"
  by (auto simp: walk_def not_le split: if_splits)

lemma unat_add_page: "a < MAXVA \<Longrightarrow> unat (a + PGSIZE) = unat a + PGSIZE"
  by (simp add: word_less_nat_alt unat_word_ariths)

function mappages_from :: "u64 \<Rightarrow> u64 \<Rightarrow> u64 \<Rightarrow> u64 \<Rightarrow> u64 \<Rightarrow> 'z km \<Rightarrow> 'z km stop + int \<times> 'z km" where
  "mappages_from pagetable a lasta pa perm s =
     bindE (walk pagetable a True s) (\<lambda>(pte, s).
     case pte of
       None \<Rightarrow> Inr (- 1, s)
     | Some pte \<Rightarrow>
         if load64 (mem s) pte AND PTE_V \<noteq> 0 then Inl (Panic ''mappages: remap'')
         else let s = s\<lparr>mem := store64 (mem s) pte (PA2PTE pa OR perm OR PTE_V)\<rparr> in
           if a = lasta then Inr (0, s)
           else mappages_from pagetable (a + PGSIZE) lasta (pa + PGSIZE) perm s)"
  by pat_completeness auto
termination
  by (relation "measure (\<lambda>(pagetable, a, lasta, pa, perm, s). unat MAXVA - unat a)")
     (auto dest!: walk_below_MAXVA simp: unat_add_page word_less_nat_alt)

declare mappages_from.simps [simp del]

definition mappages :: "u64 \<Rightarrow> u64 \<Rightarrow> u64 \<Rightarrow> u64 \<Rightarrow> u64 \<Rightarrow> 'z km \<Rightarrow> 'z km stop + int \<times> 'z km" where
  "mappages pagetable va sz pa perm s =
     (if sz = 0 then Inl (Panic ''mappages: size'')
      else mappages_from pagetable (PGROUNDDOWN va) (PGROUNDDOWN (va + sz - 1)) pa perm s)"

definition kvmmap :: "u64 \<Rightarrow> u64 \<Rightarrow> u64 \<Rightarrow> u64 \<Rightarrow> u64 \<Rightarrow> 'z km \<Rightarrow> 'z km stop + 'z km" where
  "kvmmap kpgtbl va pa sz perm s =
     bindE (mappages kpgtbl va sz pa perm s) (\<lambda>(r, s).
     if r \<noteq> 0 then Inl (Panic ''kvmmap'') else Inr s)"

function uvmunmap_from :: "u64 \<Rightarrow> u64 \<Rightarrow> u64 \<Rightarrow> bool \<Rightarrow> 'z km \<Rightarrow> 'z km stop + 'z km" where
  "uvmunmap_from pagetable a enda do_free s =
     (if \<not> a < enda then Inr s
      else bindE (walk pagetable a False s) (\<lambda>(pte, s).
        case pte of
          None \<Rightarrow> Inl (Panic ''uvmunmap: walk'')
        | Some pte \<Rightarrow>
            let e = load64 (mem s) pte in
            if e AND PTE_V = 0 then Inl (Panic ''uvmunmap: not mapped'')
            else if PTE_FLAGS e = PTE_V then Inl (Panic ''uvmunmap: not a leaf'')
            else bindE (if do_free then kfree (PTE2PA e) s else Inr s) (\<lambda>s.
              uvmunmap_from pagetable (a + PGSIZE) enda do_free
                (s\<lparr>mem := store64 (mem s) pte 0\<rparr>))))"
  by pat_completeness auto
termination
  by (relation "measure (\<lambda>(pagetable, a, enda, do_free, s). unat MAXVA - unat a)")
     (auto dest!: walk_below_MAXVA simp: unat_add_page word_less_nat_alt)

declare uvmunmap_from.simps [simp del]

definition uvmunmap :: "u64 \<Rightarrow> u64 \<Rightarrow> u64 \<Rightarrow> bool \<Rightarrow> 'z km \<Rightarrow> 'z km stop + 'z km" where
  "uvmunmap pagetable va npages do_free s =
     (if unat va mod PGSIZE \<noteq> 0 then Inl (Panic ''uvmunmap: not aligned'')
      else uvmunmap_from pagetable va (va + npages * PGSIZE) do_free s)"

section \<open>User address spaces\<close>

definition uvmcreate :: "'z km \<Rightarrow> u64 \<times> 'z km" where
  "uvmcreate s =
     (let (pagetable, s) = kalloc s in
      if pagetable = 0 then (0, s)
      else (pagetable, s\<lparr>mem := memset (mem s) pagetable 0 PGSIZE\<rparr>))"

definition uvmfirst :: "u64 \<Rightarrow> u8 list \<Rightarrow> 'z km \<Rightarrow> 'z km stop + 'z km" where
  "uvmfirst pagetable src s =
     (if length src \<ge> PGSIZE then Inl (Panic ''uvmfirst: more than a page'')
      else let (page, s) = kalloc s; s = s\<lparr>mem := memset (mem s) page 0 PGSIZE\<rparr> in
        bindE (mappages pagetable 0 PGSIZE page (PTE_W OR PTE_R OR PTE_X OR PTE_U) s) (\<lambda>(_, s).
        Inr (s\<lparr>mem := storen (mem s) page src\<rparr>)))"

definition uvmdealloc :: "u64 \<Rightarrow> u64 \<Rightarrow> u64 \<Rightarrow> 'z km \<Rightarrow> 'z km stop + u64 \<times> 'z km" where
  "uvmdealloc pagetable oldsz newsz s =
     (if newsz \<ge> oldsz then Inr (oldsz, s)
      else if PGROUNDUP newsz < PGROUNDUP oldsz
      then let npages = ucast ((PGROUNDUP oldsz - PGROUNDUP newsz) div PGSIZE) :: 32 word in
        bindE (uvmunmap pagetable (PGROUNDUP newsz) (scast npages) True s) (\<lambda>s.
        Inr (newsz, s))
      else Inr (newsz, s))"

lemma mappages_bound:
  "mappages pagetable a sz pa perm s = Inr r \<Longrightarrow> page_aligned a \<Longrightarrow> a < MAXVA"
  by (auto simp: mappages_def mappages_from.simps PGROUNDDOWN_aligned
      dest!: walk_below_MAXVA split: if_splits)

function uvmalloc_from :: "u64 \<Rightarrow> u64 \<Rightarrow> u64 \<Rightarrow> u64 \<Rightarrow> u64 \<Rightarrow> 'z km \<Rightarrow> 'z km stop + u64 \<times> 'z km" where
  "uvmalloc_from pagetable a oldsz newsz xperm s =
     (if \<not> a < newsz then Inr (newsz, s)
      else let (page, s) = kalloc s in
        if page = 0
        then bindE (uvmdealloc pagetable a oldsz s) (\<lambda>(_, s). Inr (0, s))
        else let s = s\<lparr>mem := memset (mem s) page 0 PGSIZE\<rparr> in
          bindE (mappages pagetable a PGSIZE page (PTE_R OR PTE_U OR xperm) s) (\<lambda>(r, s).
          if r \<noteq> 0
          then bindE (kfree page s) (\<lambda>s.
               bindE (uvmdealloc pagetable a oldsz s) (\<lambda>(_, s). Inr (0, s)))
          else uvmalloc_from pagetable (a + PGSIZE) oldsz newsz xperm s))"
  by pat_completeness auto
termination
proof (relation "measure (\<lambda>(pagetable, a, oldsz, newsz, xperm, s). unat MAXVA - unat (PGROUNDDOWN a))",
    goal_cases)
  case 1
  then show ?case by simp
next
  case (2 pagetable a oldsz newsz xperm s x page s' s'' r rc t)
  then have "mappages pagetable a PGSIZE page (PTE_R OR PTE_U OR xperm) s'' = Inr (rc, t)" by simp
  then obtain r' where "walk pagetable (PGROUNDDOWN a) True s'' = Inr r'"
    by (auto simp: mappages_def mappages_from.simps split: if_splits)
  then have "PGROUNDDOWN a < MAXVA" by (rule walk_below_MAXVA)
  then have "unat a < unat MAXVA"
    by (auto simp: word_less_nat_alt unat_PGROUNDDOWN)
  then have "unat (a + PGSIZE) = unat a + PGSIZE" by (simp add: unat_word_ariths)
  moreover have "(x + PGSIZE) div PGSIZE * PGSIZE = x div PGSIZE * PGSIZE + PGSIZE" for x :: nat
    using div_add_self2 [of "PGSIZE" x] by simp
  ultimately have "unat (PGROUNDDOWN (a + PGSIZE)) = unat (PGROUNDDOWN a) + PGSIZE"
    by (simp only: unat_PGROUNDDOWN)
  with \<open>PGROUNDDOWN a < MAXVA\<close> show ?case by (simp add: word_less_nat_alt)
qed

declare uvmalloc_from.simps [simp del]

definition uvmalloc :: "u64 \<Rightarrow> u64 \<Rightarrow> u64 \<Rightarrow> u64 \<Rightarrow> 'z km \<Rightarrow> 'z km stop + u64 \<times> 'z km" where
  "uvmalloc pagetable oldsz newsz xperm s =
     (if newsz < oldsz then Inr (oldsz, s)
      else uvmalloc_from pagetable (PGROUNDUP oldsz) (PGROUNDUP oldsz) newsz xperm s)"


text \<open>
  \<open>freewalk\<close> recurses into every valid entry without permission bits.  The recursion
  follows pointers in memory, so the model bounds its depth; a table that is deeper than
  the bound (which includes a cyclic one) is a fault.
\<close>

fun freewalk :: "nat \<Rightarrow> u64 \<Rightarrow> 'z km \<Rightarrow> 'z km stop + 'z km" where
  "freewalk 0 pagetable s = Inl (Fault ''freewalk: depth'')"
| "freewalk (Suc depth) pagetable s =
     bindE (foldE (\<lambda>i s.
         let pte = load64 (mem s) (pagetable + 8 * word_of_nat i) in
         if pte AND PTE_V \<noteq> 0 \<and> pte AND (PTE_R OR PTE_W OR PTE_X) = 0
         then bindE (freewalk depth (PTE2PA pte) s) (\<lambda>s.
              Inr (s\<lparr>mem := store64 (mem s) (pagetable + 8 * word_of_nat i) 0\<rparr>))
         else if pte AND PTE_V \<noteq> 0 then Inl (Panic ''freewalk: leaf'')
         else Inr s) [0..<512] s)
     (kfree pagetable)"

text \<open>The depth of an Sv39 table.\<close>

abbreviation (input) PTLEVELS :: nat where "PTLEVELS \<equiv> 3"

definition uvmfree :: "u64 \<Rightarrow> u64 \<Rightarrow> 'z km \<Rightarrow> 'z km stop + 'z km" where
  "uvmfree pagetable sz s =
     bindE (if sz > 0 then uvmunmap pagetable 0 (PGROUNDUP sz div PGSIZE) True s else Inr s)
     (freewalk PTLEVELS pagetable)"

function uvmcopy_from :: "u64 \<Rightarrow> u64 \<Rightarrow> u64 \<Rightarrow> u64 \<Rightarrow> 'z km \<Rightarrow> 'z km stop + int \<times> 'z km" where
  "uvmcopy_from old new i sz s =
     (if \<not> i < sz then Inr (0, s)
      else bindE (walk old i False s) (\<lambda>(pte, s).
        case pte of
          None \<Rightarrow> Inl (Panic ''uvmcopy: pte should exist'')
        | Some pte \<Rightarrow>
            let e = load64 (mem s) pte in
            if e AND PTE_V = 0 then Inl (Panic ''uvmcopy: page not present'')
            else let pa = PTE2PA e; flags = PTE_FLAGS e; (page, s) = kalloc s in
              if page = 0
              then bindE (uvmunmap new 0 (i div PGSIZE) True s) (\<lambda>s. Inr (- 1, s))
              else let s = s\<lparr>mem := memmove (mem s) page pa PGSIZE\<rparr> in
                bindE (mappages new i PGSIZE page flags s) (\<lambda>(r, s).
                if r \<noteq> 0
                then bindE (kfree page s) (\<lambda>s.
                     bindE (uvmunmap new 0 (i div PGSIZE) True s) (\<lambda>s. Inr (- 1, s)))
                else uvmcopy_from old new (i + PGSIZE) sz s)))"
  by pat_completeness auto
termination
  by (relation "measure (\<lambda>(old, new, i, sz, s). unat MAXVA - unat i)")
     (auto dest!: walk_below_MAXVA simp: unat_add_page word_less_nat_alt)

declare uvmcopy_from.simps [simp del]

definition uvmcopy :: "u64 \<Rightarrow> u64 \<Rightarrow> u64 \<Rightarrow> 'z km \<Rightarrow> 'z km stop + int \<times> 'z km" where
  "uvmcopy old new sz s = uvmcopy_from old new 0 sz s"

definition uvmclear :: "u64 \<Rightarrow> u64 \<Rightarrow> 'z km \<Rightarrow> 'z km stop + 'z km" where
  "uvmclear pagetable va s =
     bindE (walk pagetable va False s) (\<lambda>(pte, s).
     case pte of
       None \<Rightarrow> Inl (Panic ''uvmclear'')
     | Some pte \<Rightarrow> Inr (s\<lparr>mem := store64 (mem s) pte (load64 (mem s) pte AND NOT PTE_U)\<rparr>))"

section \<open>Copying between kernel and user space\<close>

text \<open>
  The kernel side of a copy is a byte list.  The copies move at most one page at a time;
  a page that is not mapped for the user ends the copy with \<open>-1\<close>, after the bytes of
  the earlier pages have been moved.
\<close>

lemma page_offset_less: "unat (a - PGROUNDDOWN a) < PGSIZE"
  by (simp add: in_page_iff)

function copyout :: "u64 \<Rightarrow> u64 \<Rightarrow> u8 list \<Rightarrow> 'z km \<Rightarrow> int \<times> 'z km" where
  "copyout pagetable dstva src s =
     (if src = [] then (0, s)
      else let va0 = PGROUNDDOWN dstva; pa0 = walkaddr pagetable va0 s in
        if pa0 = 0 then (- 1, s)
        else let n = min (PGSIZE - unat (dstva - va0)) (length src) in
          copyout pagetable (va0 + PGSIZE) (drop n src)
            (s\<lparr>mem := storen (mem s) (pa0 + (dstva - va0)) (take n src)\<rparr>))"
  by pat_completeness auto
termination
  by (relation "measure (\<lambda>(pagetable, dstva, src, s). length src)")
     (use page_offset_less in \<open>auto simp: not_le\<close>)

declare copyout.simps [simp del]

function copyin :: "u64 \<Rightarrow> u64 \<Rightarrow> nat \<Rightarrow> 'z km \<Rightarrow> int \<times> u8 list" where
  "copyin pagetable srcva len s =
     (if len = 0 then (0, [])
      else let va0 = PGROUNDDOWN srcva; pa0 = walkaddr pagetable va0 s in
        if pa0 = 0 then (- 1, [])
        else let n = min (PGSIZE - unat (srcva - va0)) len;
                 (r, bs) = copyin pagetable (va0 + PGSIZE) (len - n) s
             in (r, loadn (mem s) (pa0 + (srcva - va0)) n @ bs))"
  by pat_completeness auto
termination
  by (relation "measure (\<lambda>(pagetable, srcva, len, s). len)")
     (use page_offset_less in \<open>auto simp: not_le\<close>)

declare copyin.simps [simp del]

text \<open>The inner loop of \<open>copyinstr\<close>: the bytes copied, and whether the last one is the null.\<close>

fun copy_until_null :: "memory \<Rightarrow> u64 \<Rightarrow> nat \<Rightarrow> u8 list \<times> bool" where
  "copy_until_null m p 0 = ([], False)"
| "copy_until_null m p (Suc n) =
     (if m p = 0 then ([0], True)
      else let (bs, got) = copy_until_null m (p + 1) n in (m p # bs, got))"

function copyinstr :: "u64 \<Rightarrow> u64 \<Rightarrow> nat \<Rightarrow> 'z km \<Rightarrow> int \<times> u8 list" where
  "copyinstr pagetable srcva maxn s =
     (if maxn = 0 then (- 1, [])
      else let va0 = PGROUNDDOWN srcva; pa0 = walkaddr pagetable va0 s in
        if pa0 = 0 then (- 1, [])
        else let n = min (PGSIZE - unat (srcva - va0)) maxn;
                 (bs, got_null) = copy_until_null (mem s) (pa0 + (srcva - va0)) n in
          if got_null then (0, bs)
          else let (r, bs') = copyinstr pagetable (va0 + PGSIZE) (maxn - n) s in (r, bs @ bs'))"
  by pat_completeness auto
termination
  by (relation "measure (\<lambda>(pagetable, srcva, maxn, s). maxn)")
     (use page_offset_less in \<open>auto simp: not_le\<close>)

declare copyinstr.simps [simp del]

section \<open>The kernel page table\<close>

record vm_state = kmem_state +
  kernel_pagetable :: u64
  satp :: u64                 \<comment> \<open>the hart's page-table register\<close>

abbreviation UART0 :: u64 where "UART0 \<equiv> 0x10000000"
abbreviation VIRTIO0 :: u64 where "VIRTIO0 \<equiv> 0x10001000"
abbreviation PLIC :: u64 where "PLIC \<equiv> 0x0c000000"

definition MAKE_SATP :: "u64 \<Rightarrow> u64" where
  "MAKE_SATP pagetable = push_bit 60 8 OR drop_bit 12 pagetable"

definition proc_mapstacks :: "u64 \<Rightarrow> 'z km \<Rightarrow> 'z km stop + 'z km" where
  "proc_mapstacks kpgtbl = foldE (\<lambda>i s.
     let (pa, s) = kalloc s in
     if pa = 0 then Inl (Panic ''kalloc'')
     else kvmmap kpgtbl (KSTACK i) pa PGSIZE (PTE_R OR PTE_W) s) [0..<NPROC]"

text \<open>The linker places \<open>etext\<close> and \<open>trampoline\<close>; they are parameters.\<close>

definition kvmmake :: "u64 \<Rightarrow> u64 \<Rightarrow> 'z km \<Rightarrow> 'z km stop + u64 \<times> 'z km" where
  "kvmmake etext trampoline s =
     (let (kpgtbl, s) = kalloc s; s = s\<lparr>mem := memset (mem s) kpgtbl 0 PGSIZE\<rparr> in
      bindE (kvmmap kpgtbl UART0 UART0 PGSIZE (PTE_R OR PTE_W) s) (\<lambda>s.
      bindE (kvmmap kpgtbl VIRTIO0 VIRTIO0 PGSIZE (PTE_R OR PTE_W) s) (\<lambda>s.
      bindE (kvmmap kpgtbl PLIC PLIC 0x400000 (PTE_R OR PTE_W) s) (\<lambda>s.
      bindE (kvmmap kpgtbl KERNBASE KERNBASE (etext - KERNBASE) (PTE_R OR PTE_X) s) (\<lambda>s.
      bindE (kvmmap kpgtbl etext etext (PHYSTOP - etext) (PTE_R OR PTE_W) s) (\<lambda>s.
      bindE (kvmmap kpgtbl TRAMPOLINE trampoline PGSIZE (PTE_R OR PTE_X) s) (\<lambda>s.
      bindE (proc_mapstacks kpgtbl s) (\<lambda>s.
      Inr (kpgtbl, s)))))))))"

definition kvminit :: "u64 \<Rightarrow> u64 \<Rightarrow> 'z vm_state_scheme \<Rightarrow> 'z vm_state_scheme stop + 'z vm_state_scheme" where
  "kvminit etext trampoline s =
     bindE (kvmmake etext trampoline s) (\<lambda>(kpgtbl, s). Inr (s\<lparr>kernel_pagetable := kpgtbl\<rparr>))"

definition kvminithart :: "'z vm_state_scheme \<Rightarrow> 'z vm_state_scheme" where
  "kvminithart s = s\<lparr>satp := MAKE_SATP (kernel_pagetable s)\<rparr>"

end
