(* ===== verification/VmFrame.thy ===== *)
theory VmFrame
  imports Vm
begin

text \<open>
  What the memory management functions leave alone: they change only physical memory and
  the free list, so every field a component adds to the state is kept.
\<close>

definition km_frame :: "'z km \<Rightarrow> 'z km \<Rightarrow> bool" where
  "km_frame s s' \<longleftrightarrow> kend s' = kend s \<and> kmem_state.more s' = kmem_state.more s"

lemma km_frame_refl [simp, intro]: "km_frame s s"
  by (simp add: km_frame_def)

lemma km_frame_trans [trans]: "km_frame s t \<Longrightarrow> km_frame t u \<Longrightarrow> km_frame s u"
  by (simp add: km_frame_def)

lemma km_frame_mem [simp]: "km_frame s (t\<lparr>mem := m\<rparr>) \<longleftrightarrow> km_frame s t"
  by (simp add: km_frame_def)

lemma km_frame_mem' [simp]: "km_frame (s\<lparr>mem := m\<rparr>) t \<longleftrightarrow> km_frame s t"
  by (simp add: km_frame_def)

lemma kalloc_frame: "kalloc s = (r, s') \<Longrightarrow> km_frame s s'"
  by (auto simp: kalloc_def km_frame_def Let_def split: if_splits)

lemma kfree_frame: "kfree p s = Inr s' \<Longrightarrow> km_frame s s'"
  by (auto simp: kfree_def km_frame_def Let_def split: if_splits)

lemma walk_level_frame: "walk_level l pt va alloc s = (r, s') \<Longrightarrow> km_frame s s'"
proof (induction l pt va alloc s arbitrary: r s' rule: walk_level.induct)
  case (1 pt va alloc s)
  then show ?case by simp
next
  case (2 l pt va alloc s)
  obtain p t where k: "kalloc s = (p, t)" by fastforce
  note f = kalloc_frame [OF k]
  show ?case
    using "2.prems" "2.IH" f km_frame_trans [OF f]
    by (auto simp: k Let_def split: if_splits)
qed

lemma walk_frame: "walk pt va alloc s = Inr (r, s') \<Longrightarrow> km_frame s s'"
  by (auto simp: walk_def split: if_splits dest: walk_level_frame)

lemma mappages_from_frame: "mappages_from pt a lst pa perm s = Inr (r, s') \<Longrightarrow> km_frame s s'"
proof (induction pt a lst pa perm s arbitrary: r s' rule: mappages_from.induct)
  case (1 pt a lst pa perm s)
  obtain pte t where w: "walk pt a True s = Inr (pte, t)"
    using "1.prems" by (auto simp: mappages_from.simps [of pt a])
  have f: "km_frame s t" by (rule walk_frame [OF w])
  show ?case
    using "1.prems" "1.IH" [OF w] km_frame_trans [OF f] f
    by (auto simp: mappages_from.simps [of pt a] w Let_def split: option.splits if_splits)
qed

lemma mappages_frame: "mappages pt va n pa perm s = Inr (r, s') \<Longrightarrow> km_frame s s'"
  by (auto simp: mappages_def split: if_splits dest: mappages_from_frame)

lemma uvmunmap_from_frame: "uvmunmap_from pt a e df s = Inr s' \<Longrightarrow> km_frame s s'"
proof (induction pt a e df s arbitrary: s' rule: uvmunmap_from.induct)
  case (1 pt a e df s)
  show ?case
  proof (cases "a < e")
    case True
    with "1.prems" obtain pte t where w: "walk pt a False s = Inr (pte, t)"
      by (auto simp: uvmunmap_from.simps [of pt a])
    from "1.prems" True w obtain q u where q: "pte = Some q"
        "(if df then kfree (PTE2PA (load64 (mem t) q)) t else Inr t) = Inr u"
        "load64 (mem t) q AND PTE_V \<noteq> 0" "PTE_FLAGS (load64 (mem t) q) \<noteq> PTE_V"
        "uvmunmap_from pt (a + PGSIZE) e df (u\<lparr>mem := store64 (mem u) q 0\<rparr>) = Inr s'"
      by (auto simp: uvmunmap_from.simps [of pt a] Let_def split: option.splits if_splits)
    have "km_frame (u\<lparr>mem := store64 (mem u) q 0\<rparr>) s'"
      using True w q by (intro "1.IH") auto
    moreover have "km_frame t u" using q(2) by (auto split: if_splits dest: kfree_frame)
    ultimately show ?thesis using walk_frame [OF w] km_frame_trans km_frame_mem' by metis
  qed (use "1.prems" in \<open>simp add: uvmunmap_from.simps [of pt a]\<close>)
qed

lemma uvmunmap_frame: "uvmunmap pt a n df s = Inr s' \<Longrightarrow> km_frame s s'"
  by (auto simp: uvmunmap_def split: if_splits dest: uvmunmap_from_frame)

lemma uvmcreate_frame: "uvmcreate s = (pt, s') \<Longrightarrow> km_frame s s'"
  by (auto simp: uvmcreate_def Let_def split: if_splits prod.splits dest: kalloc_frame)

lemma uvmdealloc_frame: "uvmdealloc pt old n s = Inr (r, s') \<Longrightarrow> km_frame s s'"
  by (auto simp: uvmdealloc_def Let_def split: if_splits dest: uvmunmap_frame)

lemma uvmalloc_from_frame: "uvmalloc_from pt a old new xperm s = Inr (r, s') \<Longrightarrow> km_frame s s'"
proof (induction pt a old new xperm s arbitrary: r s' rule: uvmalloc_from.induct)
  case (1 pt a old new xperm s)
  obtain p t where k: "kalloc s = (p, t)" by fastforce
  let ?t = "t\<lparr>mem := memset (mem t) p 0 PGSIZE\<rparr>"
  have st: "km_frame s t" by (rule kalloc_frame [OF k])
  show ?case
  proof (cases "\<not> a < new \<or> p = 0")
    case True
    then show ?thesis using "1.prems" st k
      by (auto simp: uvmalloc_from.simps [of pt a] dest!: uvmdealloc_frame intro: km_frame_trans
          split: if_splits)
  next
    case False
    then obtain rc u where m: "mappages pt a PGSIZE p (PTE_R OR PTE_U OR xperm) ?t = Inr (rc, u)"
      using "1.prems" k by (auto simp: uvmalloc_from.simps [of pt a] Let_def)
    have su: "km_frame s u" using mappages_frame [OF m] st by (auto intro: km_frame_trans)
    show ?thesis
    proof (cases "rc = 0")
      case True
      then have "uvmalloc_from pt (a + PGSIZE) old new xperm u = Inr (r, s')"
        using "1.prems" False k m by (simp add: uvmalloc_from.simps [of pt a])
      then have "km_frame u s'" using False k m True by (intro "1.IH") auto
      with su show ?thesis by (rule km_frame_trans)
    next
      case rc: False
      then obtain v where v: "kfree p u = Inr v" "\<exists>z. uvmdealloc pt a old v = Inr (z, s')"
        using "1.prems" False k m by (auto simp: uvmalloc_from.simps [of pt a])
      then show ?thesis using su kfree_frame uvmdealloc_frame km_frame_trans by metis
    qed
  qed
qed

lemma uvmalloc_frame: "uvmalloc pt old new xperm s = Inr (r, s') \<Longrightarrow> km_frame s s'"
  by (auto simp: uvmalloc_def split: if_splits dest: uvmalloc_from_frame)

lemma freewalk_frame: "freewalk d pt s = Inr s' \<Longrightarrow> km_frame s s'"
proof (induction d arbitrary: pt s s')
  case (Suc d)
  from Suc.prems obtain t where t: "kfree pt t = Inr s'" and
    loop: "foldE (\<lambda>i s.
         let pte = load64 (mem s) (pt + 8 * word_of_nat i) in
         if pte AND PTE_V \<noteq> 0 \<and> pte AND (PTE_R OR PTE_W OR PTE_X) = 0
         then bindE (freewalk d (PTE2PA pte) s) (\<lambda>s.
              Inr (s\<lparr>mem := store64 (mem s) (pt + 8 * word_of_nat i) 0\<rparr>))
         else if pte AND PTE_V \<noteq> 0 then Inl (Panic ''freewalk: leaf'')
         else Inr s) [0..<512] s = Inr t"
    by (auto simp del: upt_rec_numeral)
  have "km_frame s t"
    using loop by (rule foldE_invariant)
      (auto simp: Let_def split: if_splits dest!: Suc.IH intro: km_frame_trans)
  with kfree_frame [OF t] show ?case by (blast intro: km_frame_trans)
qed simp

lemma uvmfree_frame: "uvmfree pt n s = Inr s' \<Longrightarrow> km_frame s s'"
  by (auto simp: uvmfree_def simp del: freewalk.simps split: if_splits
      dest!: uvmunmap_frame freewalk_frame intro: km_frame_trans)

lemma uvmcopy_from_frame: "uvmcopy_from old new i n s = Inr (r, s') \<Longrightarrow> km_frame s s'"
proof (induction old new i n s arbitrary: r s' rule: uvmcopy_from.induct)
  case (1 old new i n s)
  show ?case
  proof (cases "i < n")
    case True
    with "1.prems" obtain q t where w: "walk old i False s = Inr (Some q, t)"
        "load64 (mem t) q AND PTE_V \<noteq> 0"
      by (auto simp: uvmcopy_from.simps [of old new i] Let_def split: option.splits if_splits)
    obtain p u where k: "kalloc t = (p, u)" by fastforce
    have su: "km_frame s u" using walk_frame [OF w(1)] kalloc_frame [OF k] by (rule km_frame_trans)
    let ?u = "u\<lparr>mem := memmove (mem u) p (PTE2PA (load64 (mem t) q)) PGSIZE\<rparr>"
    show ?thesis
    proof (cases "p = 0")
      case True
      with "1.prems" \<open>i < n\<close> w k show ?thesis
        by (auto simp: uvmcopy_from.simps [of old new i] dest!: uvmunmap_frame
            intro: km_frame_trans [OF su])
    next
      case False
      then obtain rc v where m: "mappages new i PGSIZE p (PTE_FLAGS (load64 (mem t) q)) ?u = Inr (rc, v)"
        using "1.prems" True w k by (auto simp: uvmcopy_from.simps [of old new i] Let_def)
      have sv: "km_frame s v" using mappages_frame [OF m] su by (auto intro: km_frame_trans)
      show ?thesis
      proof (cases "rc = 0")
        case rc: True
        then have "uvmcopy_from old new (i + PGSIZE) n v = Inr (r, s')"
          using "1.prems" True False w k m by (simp add: uvmcopy_from.simps [of old new i])
        then have "km_frame v s'" using True False w k m rc by (intro "1.IH") auto
        with sv show ?thesis by (rule km_frame_trans)
      next
        case rc: False
        then obtain x y where "kfree p v = Inr x" "uvmunmap new 0 (i div PGSIZE) True x = Inr y" "s' = y"
          using "1.prems" True False w k m by (auto simp: uvmcopy_from.simps [of old new i])
        then show ?thesis using sv kfree_frame uvmunmap_frame km_frame_trans by metis
      qed
    qed
  qed (use "1.prems" in \<open>simp add: uvmcopy_from.simps [of old new i]\<close>)
qed

lemma uvmcopy_frame: "uvmcopy old new n s = Inr (r, s') \<Longrightarrow> km_frame s s'"
  by (auto simp: uvmcopy_def dest: uvmcopy_from_frame)

lemma copyout_frame: "copyout pt dstva src s = (r, s') \<Longrightarrow> km_frame s s'"
proof (induction pt dstva src s arbitrary: r s' rule: copyout.induct)
  case (1 pt dstva src s)
  then show ?case by (auto simp: copyout.simps [of pt dstva] Let_def split: if_splits)
qed

lemmas vm_frames = kalloc_frame kfree_frame walk_frame mappages_frame uvmunmap_frame
  uvmcreate_frame uvmdealloc_frame uvmalloc_frame uvmfree_frame uvmcopy_frame copyout_frame

text \<open>The memory management functions never sleep.\<close>

definition awake :: "'s stop + 'a \<Rightarrow> bool" where
  "awake r \<longleftrightarrow> (\<forall>c s. r \<noteq> Inl (Asleep c s))"

lemma awake_simps [simp]: "awake (Inr x)" "awake (Inl (Panic m))" "awake (Inl (Fault m))"
  by (simp_all add: awake_def)

lemma awake_bindE [simp]: "awake (bindE x f) \<longleftrightarrow> awake x \<and> (\<forall>v. x = Inr v \<longrightarrow> awake (f v))"
  by (cases x) (auto simp: awake_def)

lemma awake_foldE: "(\<And>x s. x \<in> set xs \<Longrightarrow> awake (f x s)) \<Longrightarrow> awake (foldE f xs s)"
  by (induction xs arbitrary: s) auto

lemma kfree_awake [simp]: "awake (kfree p s)"
  by (simp add: kfree_def Let_def)

lemma walk_awake [simp]: "awake (walk pt va alloc s)"
  by (simp add: walk_def)

lemma mappages_from_awake [simp]: "awake (mappages_from pt a lst pa perm s)"
proof (induction pt a lst pa perm s rule: mappages_from.induct)
  case (1 pt a lst pa perm s)
  then show ?case unfolding mappages_from.simps [of pt a]
    by (auto simp: Let_def split: option.split)
qed

lemma mappages_awake [simp]: "awake (mappages pt va n pa perm s)"
  by (simp add: mappages_def)

lemma uvmunmap_from_awake [simp]: "awake (uvmunmap_from pt a e df s)"
proof (induction pt a e df s rule: uvmunmap_from.induct)
  case (1 pt a e df s)
  then show ?case unfolding uvmunmap_from.simps [of pt a]
    by (auto simp: Let_def split: option.split)
qed

lemma uvmunmap_awake [simp]: "awake (uvmunmap pt a n df s)"
  by (simp add: uvmunmap_def)

lemma freewalk_awake [simp]: "awake (freewalk d pt s)"
proof (induction d arbitrary: pt s)
  case (Suc d)
  then show ?case
    by (auto simp: Let_def simp del: upt_rec_numeral intro!: awake_foldE)
qed simp

lemma uvmfree_awake [simp]: "awake (uvmfree pt n s)"
  by (auto simp: uvmfree_def simp del: freewalk.simps)

end
