(* ===== verification/Printf.thy ===== *)
theory Printf
  imports Prelude
begin

text \<open>
  Formatted output: kernel/printf.c and user/printf.c.  The functions return the
  characters they hand to \<open>consputc\<close> or \<open>putc\<close>, in order.  The digit buffer has the
  16 bytes of the source; running past it, or a missing or ill-typed variable argument,
  is the value None.
\<close>

section \<open>Definitions\<close>

abbreviation kernel_digits :: string where "kernel_digits \<equiv> ''0123456789abcdef''"
abbreviation user_digits :: string where "user_digits \<equiv> ''0123456789ABCDEF''"

text \<open>The do-while loop of \<open>printint\<close>; \<open>room\<close> is what is left of the buffer.\<close>

fun put_digits :: "string \<Rightarrow> u32 \<Rightarrow> nat \<Rightarrow> u32 \<Rightarrow> string option" where
  "put_digits digits base 0 x = None"
| "put_digits digits base (Suc room) x =
     (let c = digits ! unat (x mod base) in
      if x div base = 0 then Some [c]
      else map_option ((#) c) (put_digits digits base room (x div base)))"

definition printint :: "string \<Rightarrow> u32 \<Rightarrow> u32 \<Rightarrow> bool \<Rightarrow> string option" where
  "printint digits xx base sign =
     (let neg = sign \<and> sint xx < 0; x = (if neg then - xx else xx) in
      case put_digits digits base 16 x of
        None \<Rightarrow> None
      | Some buf \<Rightarrow>
          (let buf = (if neg then buf @ ''-'' else buf) in
           if length buf > 16 then None else Some (rev buf)))"

fun ptr_digits :: "string \<Rightarrow> nat \<Rightarrow> u64 \<Rightarrow> string" where
  "ptr_digits digits 0 x = []"
| "ptr_digits digits (Suc n) x = digits ! unat (drop_bit 60 x) # ptr_digits digits n (push_bit 4 x)"

definition printptr :: "string \<Rightarrow> u64 \<Rightarrow> string" where
  "printptr digits x = ''0x'' @ ptr_digits digits 16 x"

text \<open>Variable arguments: an int, a 64-bit value, or a C string (None is the null pointer).\<close>

datatype arg = ArgInt u32 | ArgLong u64 | ArgStr "string option"

definition str_or_null :: "string option \<Rightarrow> string" where
  "str_or_null so = (case so of None \<Rightarrow> ''(null)'' | Some t \<Rightarrow> t)"

definition emit :: "string option \<Rightarrow> string option \<Rightarrow> string option" where
  "emit a b = Option.bind a (\<lambda>x. map_option ((@) x) b)"

fun printf :: "string \<Rightarrow> arg list \<Rightarrow> string option" where
  "printf [] ap = Some []"
| "printf (c # fmt) ap =
     (if c \<noteq> CHR ''%'' then emit (Some [c]) (printf fmt ap)
      else case fmt of
        [] \<Rightarrow> Some []
      | d # fmt' \<Rightarrow>
          if d = CHR ''d'' then
            (case ap of ArgInt x # ap' \<Rightarrow> emit (printint kernel_digits x 10 True) (printf fmt' ap')
             | _ \<Rightarrow> None)
          else if d = CHR ''x'' then
            (case ap of ArgInt x # ap' \<Rightarrow> emit (printint kernel_digits x 16 True) (printf fmt' ap')
             | _ \<Rightarrow> None)
          else if d = CHR ''p'' then
            (case ap of ArgLong x # ap' \<Rightarrow> emit (Some (printptr kernel_digits x)) (printf fmt' ap')
             | _ \<Rightarrow> None)
          else if d = CHR ''s'' then
            (case ap of ArgStr t # ap' \<Rightarrow> emit (Some (str_or_null t)) (printf fmt' ap')
             | _ \<Rightarrow> None)
          else if d = CHR ''%'' then emit (Some ''%'') (printf fmt' ap)
          else emit (Some [CHR ''%'', d]) (printf fmt' ap))"

text \<open>
  \<open>vprintf\<close> of the user library is the same conversion as a two-state machine; the
  boolean says whether the previous character was an unfinished percent sign.
\<close>

fun vprintf :: "bool \<Rightarrow> string \<Rightarrow> arg list \<Rightarrow> string option" where
  "vprintf state [] ap = Some []"
| "vprintf False (c # fmt) ap =
     (if c = CHR ''%'' then vprintf True fmt ap else emit (Some [c]) (vprintf False fmt ap))"
| "vprintf True (c # fmt) ap =
     (if c = CHR ''d'' then
        (case ap of ArgInt x # ap' \<Rightarrow> emit (printint user_digits x 10 True) (vprintf False fmt ap')
         | _ \<Rightarrow> None)
      else if c = CHR ''l'' then
        (case ap of ArgLong x # ap' \<Rightarrow>
             emit (printint user_digits (ucast x) 10 False) (vprintf False fmt ap')
         | _ \<Rightarrow> None)
      else if c = CHR ''x'' then
        (case ap of ArgInt x # ap' \<Rightarrow> emit (printint user_digits x 16 False) (vprintf False fmt ap')
         | _ \<Rightarrow> None)
      else if c = CHR ''p'' then
        (case ap of ArgLong x # ap' \<Rightarrow> emit (Some (printptr user_digits x)) (vprintf False fmt ap')
         | _ \<Rightarrow> None)
      else if c = CHR ''s'' then
        (case ap of ArgStr t # ap' \<Rightarrow> emit (Some (str_or_null t)) (vprintf False fmt ap')
         | _ \<Rightarrow> None)
      else if c = CHR ''c'' then
        (case ap of ArgInt x # ap' \<Rightarrow>
             emit (Some [char_of (unat x mod 256)]) (vprintf False fmt ap')
         | _ \<Rightarrow> None)
      else if c = CHR ''%'' then emit (Some [c]) (vprintf False fmt ap)
      else emit (Some [CHR ''%'', c]) (vprintf False fmt ap))"

section \<open>Numbers are printed in canonical form\<close>

text \<open>The value of a digit string, most significant digit first.\<close>

definition digit_val :: "string \<Rightarrow> char \<Rightarrow> nat" where
  "digit_val digits c = length (takeWhile (\<lambda>d. d \<noteq> c) digits)"

definition numeral_val :: "string \<Rightarrow> nat \<Rightarrow> string \<Rightarrow> nat" where
  "numeral_val digits base = foldl (\<lambda>v c. v * base + digit_val digits c) 0"

lemma numeral_val_snoc:
  "numeral_val digits base (t @ [c]) = numeral_val digits base t * base + digit_val digits c"
  by (simp add: numeral_val_def)

lemma digit_val_nth:
  assumes "distinct digits" and "n < length digits"
  shows "digit_val digits (digits ! n) = n"
proof -
  have "\<forall>d \<in> set (take n digits). d \<noteq> digits ! n"
    using assms by (auto simp: in_set_conv_nth nth_eq_iff_index_eq)
  then have "takeWhile (\<lambda>d. d \<noteq> digits ! n) (take n digits @ digits ! n # drop (Suc n) digits) = take n digits"
    by (simp add: takeWhile_append2)
  then show ?thesis
    using assms by (simp add: digit_val_def id_take_nth_drop [symmetric])
qed

lemma put_digits_spec:
  assumes "distinct digits" and "length digits = 16" and "2 \<le> base" and "base \<le> 16"
    and "unat x < unat base ^ Suc room"
  shows "\<exists>buf. put_digits digits base (Suc room) x = Some buf \<and> buf \<noteq> [] \<and> length buf \<le> Suc room \<and>
    numeral_val digits (unat base) (rev buf) = unat x \<and> (last buf = digits ! 0 \<longrightarrow> length buf = 1)"
  using assms(5)
proof (induction room arbitrary: x)
  case 0
  have b: "2 \<le> unat base" "unat base \<le> 16" using assms(3,4) by (simp_all add: word_le_nat_alt)
  have "x < base" using 0 by (simp add: word_less_nat_alt)
  then have "x div base = 0" "x mod base = x"
    by (auto simp: word_arith_nat_div unat_mod_distrib word_unat_eq_iff word_less_nat_alt unat_div_distrib)
  moreover have "digit_val digits (digits ! unat x) = unat x"
    using \<open>x < base\<close> b assms(1,2) by (intro digit_val_nth) (auto simp: word_less_nat_alt)
  ultimately show ?case by (simp add: numeral_val_def)
next
  case (Suc room)
  have b: "2 \<le> unat base" "unat base \<le> 16" using assms(3,4) by (simp_all add: word_le_nat_alt)
  let ?c = "digits ! unat (x mod base)"
  have mod: "unat (x mod base) < 16" "unat (x mod base) = unat x mod unat base"
    using b by (auto simp: unat_mod_distrib intro: order_less_le_trans [OF mod_less_divisor])
  have dv: "digit_val digits ?c = unat x mod unat base"
    using mod assms(1,2) by (simp add: digit_val_nth)
  show ?case
  proof (cases "x div base = 0")
    case True
    then have "unat x div unat base = 0" by (metis unat_div_distrib unat_0)
    then have "unat x mod unat base = unat x" using b by (simp add: div_eq_0_iff)
    with True dv show ?thesis by (simp add: numeral_val_def)
  next
    case False
    have q: "unat (x div base) = unat x div unat base" by (rule unat_div_distrib)
    have "unat (x div base) < unat base ^ Suc room"
      unfolding q using Suc.prems b by (intro less_mult_imp_div_less) (simp add: mult.commute)
    then obtain buf where buf: "put_digits digits base (Suc room) (x div base) = Some buf"
        "buf \<noteq> []" "length buf \<le> Suc room"
        "numeral_val digits (unat base) (rev buf) = unat (x div base)"
        "last buf = digits ! 0 \<longrightarrow> length buf = 1"
      using Suc.IH by blast
    have "put_digits digits base (Suc (Suc room)) x = Some (?c # buf)"
      using False buf(1) by (simp add: Let_def)
    moreover have "numeral_val digits (unat base) (rev (?c # buf)) = unat x"
      using buf(4) dv q by (simp add: numeral_val_snoc)
    moreover have "last buf \<noteq> digits ! 0"
    proof
      assume "last buf = digits ! 0"
      then have "buf = [digits ! 0]" using buf(2,5) by (cases buf) auto
      then have "unat (x div base) = 0"
        using buf(4) assms(1,2) by (simp add: numeral_val_def digit_val_nth)
      with False show False by (simp add: unat_eq_0)
    qed
    ultimately show ?thesis using buf(2,3) by simp
  qed
qed

lemma put_digits_more:
  "put_digits digits base n x \<noteq> None \<Longrightarrow> put_digits digits base (n + k) x = put_digits digits base n x"
  by (induction digits base n x rule: put_digits.induct) (auto simp: Let_def split: if_splits)

text \<open>
  The absolute value printed and the sign: with \<open>sign\<close> set the argument is read as a
  signed int, otherwise as an unsigned one.
\<close>

definition print_value :: "u32 \<Rightarrow> bool \<Rightarrow> int" where
  "print_value xx sign = (if sign then sint xx else uint xx)"

lemma sint_abs: "(x :: u32) = (if sint xx < 0 then - xx else xx) \<Longrightarrow> uint x = \<bar>sint xx\<bar>"
proof -
  assume x: "x = (if sint xx < 0 then - xx else xx)"
  have u: "0 \<le> uint xx" "uint xx < 2 ^ 32" using uint_bounded [of xx] by simp_all
  have si: "sint xx = (if uint xx < 2 ^ 31 then uint xx else uint xx - 2 ^ 32)"
    by (rule sint_u32)
  have "- uint xx mod 2 ^ 32 = 2 ^ 32 - uint xx" if "\<not> uint xx < 2 ^ 31"
    using that u by (simp add: zmod_zminus1_eq_if mod_pos_pos_trivial)
  then show ?thesis
    using u unfolding x si by (simp add: uint_word_ariths)
qed

lemma printint_canonical:
  assumes "distinct digits" and "length digits = 16" and "10 \<le> base" and "base \<le> 16"
  shows "\<exists>t. printint digits xx base sign = Some ((if print_value xx sign < 0 then ''-'' else []) @ t) \<and>
    t \<noteq> [] \<and> int (numeral_val digits (unat base) t) = \<bar>print_value xx sign\<bar> \<and>
    (hd t = digits ! 0 \<longrightarrow> length t = 1)"
proof -
  define neg where "neg \<longleftrightarrow> sign \<and> sint xx < 0"
  define x where "x = (if neg then - xx else xx)"
  have b: "10 \<le> unat base" using assms(3) by (simp add: word_le_nat_alt)
  have b2: "2 \<le> base" by (rule order_trans [OF _ assms(3)]) simp
  have "unat x < 10 ^ Suc 9" using unsigned_less [of x, where ?'a = nat] by simp
  also have "\<dots> \<le> unat base ^ Suc 9" using b by (rule power_mono) simp
  finally have small: "unat x < unat base ^ Suc 9" .
  then have "unat x < unat base ^ Suc 15"
    by (rule order_less_le_trans) (use b in \<open>intro power_increasing, simp_all\<close>)
  then obtain buf where buf: "put_digits digits base 16 x = Some buf" "buf \<noteq> []"
      "numeral_val digits (unat base) (rev buf) = unat x" "last buf = digits ! 0 \<longrightarrow> length buf = 1"
    using put_digits_spec [OF assms(1,2), of base x 15] b2 assms(4) by auto
  have "put_digits digits base (Suc 9 + n) x = put_digits digits base (Suc 9) x"
    if "put_digits digits base (Suc 9) x \<noteq> None" for n
    using that put_digits_more by blast
  from this [of 6] obtain buf' where "put_digits digits base 16 x = Some buf'" "length buf' \<le> 10"
    using put_digits_spec [OF assms(1,2), of base x 9] b2 assms(4) small by auto
  then have len: "length buf \<le> 10" using buf(1) by simp
  have neg: "neg \<longleftrightarrow> print_value xx sign < 0"
    by (auto simp: neg_def print_value_def not_less)
  have "uint x = \<bar>print_value xx sign\<bar>"
    using sint_abs [of x xx] by (auto simp: x_def neg_def print_value_def)
  then have "int (unat x) = \<bar>print_value xx sign\<bar>" by simp
  moreover have "printint digits xx base sign = Some ((if neg then ''-'' else []) @ rev buf)"
    using buf(1) len unfolding printint_def neg_def [symmetric] x_def [symmetric]
    by (simp add: Let_def flip: neg_def x_def)
  ultimately show ?thesis
    using buf(2-4) neg by (auto simp: hd_rev)
qed

text \<open>A pointer is printed with all its sixteen hexadecimal digits.\<close>

lemma ptr_digits_snoc:
  "ptr_digits digits (Suc n) x = ptr_digits digits n x @ [digits ! unat (drop_bit 60 (push_bit (4 * n) x))]"
proof (induction n arbitrary: x)
  case (Suc n)
  have "ptr_digits digits (Suc (Suc n)) x = digits ! unat (drop_bit 60 x) # ptr_digits digits (Suc n) (push_bit 4 x)"
    by (rule ptr_digits.simps)
  also note Suc.IH [of "push_bit 4 x"]
  finally show ?case by (simp add: push_bit_push_bit add.commute)
qed simp

lemma top_nibble:
  fixes x :: u64
  assumes "n < 16"
  shows "unat (drop_bit 60 (push_bit (4 * n) x)) = unat x div 16 ^ (15 - n) mod 16"
proof -
  have "drop_bit 60 (push_bit (4 * n) x) = take_bit 4 (drop_bit (4 * (15 - n)) x)"
  proof (rule bit_word_eqI)
    fix i
    have "60 + i - 4 * n = 4 * (15 - n) + i" using assms by simp
    then show "bit (drop_bit 60 (push_bit (4 * n) x)) i = bit (take_bit 4 (drop_bit (4 * (15 - n)) x)) i"
      using assms by (auto simp: bit_simps)
  qed
  moreover have "unat (take_bit 4 (drop_bit (4 * (15 - n)) x)) = unat x div 16 ^ (15 - n) mod 16"
    by (simp only: unsigned_take_bit_eq unsigned_drop_bit_eq)
       (use unsigned_less [of x, where ?'a = nat] in
         \<open>simp add: take_bit_eq_mod drop_bit_eq_div power_mult\<close>)
  ultimately show ?thesis by simp
qed

lemma numeral_val_ptr:
  assumes "distinct digits" and "length digits = 16" and "n \<le> 16"
  shows "numeral_val digits 16 (ptr_digits digits n x) = unat x div 16 ^ (16 - n)"
  using assms(3)
proof (induction n)
  case 0
  then show ?case using unsigned_less [of x, where ?'a = nat] by (simp add: numeral_val_def)
next
  case (Suc n)
  then have n: "n < 16" by simp
  have "16 - n = Suc (15 - n)" using n by simp
  then have "unat x div 16 ^ (16 - n) = unat x div 16 ^ (15 - n) div 16"
    by (simp only: power_Suc2 div_mult2_eq)
  moreover have "digit_val digits (digits ! unat (drop_bit 60 (push_bit (4 * n) x))) =
      unat x div 16 ^ (15 - n) mod 16"
    using assms(1,2) n by (subst digit_val_nth) (simp_all add: top_nibble)
  ultimately show ?case
    using Suc by (simp only: ptr_digits_snoc numeral_val_snoc) simp
qed

section \<open>The two formatters agree\<close>

text \<open>The conversion characters of a format string, as both formatters split it.\<close>

fun conversions :: "string \<Rightarrow> string" where
  "conversions [] = []"
| "conversions [c] = []"
| "conversions (c # d # fmt) =
     (if c = CHR ''%'' then d # conversions fmt else conversions (d # fmt))"

lemma nth_digits_decimal: "n < 10 \<Longrightarrow> kernel_digits ! n = user_digits ! n"
  by (simp add: less_Suc_eq numeral_eq_Suc) (elim disjE; simp)

lemma put_digits_decimal: "put_digits kernel_digits 10 n x = put_digits user_digits 10 n x"
proof (induction n arbitrary: x)
  case 0
  then show ?case by simp
next
  case (Suc n)
  have "unat (x mod 10) < 10" by (simp add: unat_mod_distrib)
  then have "kernel_digits ! unat (x mod 10) = user_digits ! unat (x mod 10)"
    by (rule nth_digits_decimal)
  then show ?case by (simp add: Suc.IH Let_def del: nth_Cons')
qed

lemma printint_decimal: "printint kernel_digits x 10 sign = printint user_digits x 10 sign"
  by (simp only: printint_def put_digits_decimal)

lemma printf_agree:
  "set (conversions fmt) \<inter> set ''xplc'' = {} \<Longrightarrow> printf fmt ap = vprintf False fmt ap"
proof (induction fmt arbitrary: ap rule: conversions.induct)
  case (3 c d fmt)
  show ?case
  proof (cases "c = CHR ''%''")
    case True
    with 3 show ?thesis
      by (auto simp: printint_decimal split: list.split arg.split)
  next
    case False
    with 3 show ?thesis by simp
  qed
qed simp_all

section \<open>Properties\<close>

text \<open>
  C25: \<open>printint\<close> never overruns its 16-byte buffer for the bases 10 to 16 and prints the
  canonical numeral of the argument: a minus sign exactly for negative values, then the
  digits of the absolute value, without leading zeros, also for the least int.
\<close>

theorem printint_prints_numeral:
  assumes "distinct digits" and "length digits = 16" and "10 \<le> base" and "base \<le> 16"
  shows "\<exists>t. printint digits xx base sign = Some ((if print_value xx sign < 0 then ''-'' else []) @ t) \<and>
    t \<noteq> [] \<and> int (numeral_val digits (unat base) t) = \<bar>print_value xx sign\<bar> \<and>
    (hd t = digits ! 0 \<longrightarrow> length t = 1)"
  using assms by (rule printint_canonical)

theorem printint_prints_numeral_witness:
  "\<exists>t. printint kernel_digits 0x80000000 10 True = Some (''-'' @ t) \<and>
     int (numeral_val kernel_digits 10 t) = 2147483648"
  using printint_prints_numeral [of kernel_digits 10 "0x80000000" True]
  by (auto simp: print_value_def sint_u32)

text \<open>
  C26: \<open>printptr\<close> prints all sixteen hexadecimal digits of its argument.
\<close>

theorem printptr_prints_numeral:
  "\<exists>t. printptr kernel_digits x = ''0x'' @ t \<and> length t = 16 \<and> numeral_val kernel_digits 16 t = unat x"
proof -
  have "length (ptr_digits digits n y) = n" for digits n y
    by (induction n arbitrary: y) simp_all
  then show ?thesis
    using numeral_val_ptr [of kernel_digits 16 x] by (simp add: printptr_def)
qed

text \<open>
  C27: The kernel's \<open>printf\<close> and the user library's \<open>vprintf\<close> produce the same text on every
  format string that uses none of the conversions x, p, l and c, which they treat
  differently.
\<close>

theorem printf_vprintf_agree:
  assumes "set (conversions fmt) \<inter> set ''xplc'' = {}"
  shows "printf fmt ap = vprintf False fmt ap"
  using assms by (rule printf_agree)

theorem printf_vprintf_agree_witness:
  "printf ''%d%%'' [ArgInt 42] = vprintf False ''%d%%'' [ArgInt 42]"
  using printf_vprintf_agree [of "''%d%%''" "[ArgInt 42]"] by simp

end
