(* ===== verification/Proc.thy ===== *)
theory Proc
  imports VmFrame Printf
begin

text \<open>
  kernel/proc.c: the process table, sleep and wakeup, kill, wait and the scheduler's
  state changes.  A process is named by its index in \<open>proc[]\<close>.  \<open>cpu_proc\<close> is
  \<open>cpus[].proc\<close> and \<open>hart\<close> the hart id in register tp, so that \<open>myproc\<close> is the
  process of the current hart.  The functions that need files and inodes (fork, exit,
  userinit) are in ProcLife.  Each function runs under the spinlocks the source takes,
  and is one atomic step of the model; giving up the CPU is the outcome Asleep.
\<close>

section \<open>Data (kernel/proc.h)\<close>

datatype procstate = UNUSED | USED | SLEEPING | RUNNABLE | RUNNING | ZOMBIE

record kcontext =
  ctx_ra :: u64
  ctx_sp :: u64
  ctx_s :: "nat \<Rightarrow> u64"          \<comment> \<open>s0 to s11\<close>

record proc =
  p_state :: procstate
  p_chan :: "chan option"         \<comment> \<open>None is the null channel\<close>
  p_killed :: int
  p_xstate :: int
  p_pid :: int
  p_parent :: "nat option"
  p_kstack :: u64
  p_sz :: u64
  p_pagetable :: u64
  p_trapframe :: u64              \<comment> \<open>the trapframe itself is in physical memory\<close>
  p_context :: kcontext
  p_ofile :: "nat \<Rightarrow> nat option"  \<comment> \<open>indices into the file table\<close>
  p_cwd :: "nat option"           \<comment> \<open>index into the inode table\<close>
  p_name :: "nat \<Rightarrow> u8"

text \<open>The offsets of the fields of \<open>struct trapframe\<close>.\<close>

abbreviation (input) TF_kernel_satp :: u64 where "TF_kernel_satp \<equiv> 0"
abbreviation (input) TF_kernel_sp :: u64 where "TF_kernel_sp \<equiv> 8"
abbreviation (input) TF_kernel_trap :: u64 where "TF_kernel_trap \<equiv> 16"
abbreviation (input) TF_epc :: u64 where "TF_epc \<equiv> 24"
abbreviation (input) TF_kernel_hartid :: u64 where "TF_kernel_hartid \<equiv> 32"
abbreviation (input) TF_sp :: u64 where "TF_sp \<equiv> 48"
abbreviation (input) TF_a0 :: u64 where "TF_a0 \<equiv> 112"
abbreviation (input) TF_a1 :: u64 where "TF_a1 \<equiv> 120"
abbreviation (input) TF_a7 :: u64 where "TF_a7 \<equiv> 168"
abbreviation (input) TF_SIZE :: nat where "TF_SIZE \<equiv> 288"

text \<open>\<open>struct top\<close> of kernel/topStruct.h.\<close>

record top =
  uptime :: u32
  total_process :: int
  running_process :: int
  sleeping_process :: int

record proc_state = vm_state +
  proc :: "nat \<Rightarrow> proc"
  nextpid :: int
  initproc :: "nat option"
  cpu_proc :: "nat \<Rightarrow> nat option"
  hart :: nat
  ticks :: u32
  topp :: top
  trampoline :: u64               \<comment> \<open>addresses set by the linker\<close>
  forkret_pc :: u64
  cons_out :: string              \<comment> \<open>everything printed with \<open>printf\<close> so far\<close>

type_synonym 'z pst = "'z proc_state_scheme"

definition tf_load :: "nat \<Rightarrow> u64 \<Rightarrow> 'z pst \<Rightarrow> u64" where
  "tf_load p off s = load64 (mem s) (p_trapframe (proc s p) + off)"

definition tf_store :: "nat \<Rightarrow> u64 \<Rightarrow> u64 \<Rightarrow> 'z pst \<Rightarrow> 'z pst" where
  "tf_store p off v s = s\<lparr>mem := store64 (mem s) (p_trapframe (proc s p) + off) v\<rparr>"

definition upd_proc :: "nat \<Rightarrow> (proc \<Rightarrow> proc) \<Rightarrow> 'z pst \<Rightarrow> 'z pst" where
  "upd_proc p f s = s\<lparr>proc := (proc s)(p := f (proc s p))\<rparr>"

definition kprintf :: "string \<Rightarrow> arg list \<Rightarrow> 'z pst \<Rightarrow> 'z pst stop + 'z pst" where
  "kprintf fmt ap s =
     (case printf fmt ap of
        None \<Rightarrow> Inl (Fault ''printf'')
      | Some t \<Rightarrow> Inr (s\<lparr>cons_out := cons_out s @ t\<rparr>))"

section \<open>Process table\<close>

definition procinit :: "'z pst \<Rightarrow> 'z pst" where
  "procinit s = fold (\<lambda>p. upd_proc p (\<lambda>r. r\<lparr>p_state := UNUSED, p_kstack := KSTACK p\<rparr>)) [0..<NPROC] s"

definition cpuid :: "'z pst \<Rightarrow> nat" where
  "cpuid s = hart s"

definition myproc :: "'z pst \<Rightarrow> nat option" where
  "myproc s = cpu_proc s (cpuid s)"

text \<open>Code that uses \<open>myproc()\<close> without a check faults when there is no process.\<close>

definition with_myproc :: "'z pst \<Rightarrow> (nat \<Rightarrow> 'z pst stop + 'a) \<Rightarrow> 'z pst stop + 'a" where
  "with_myproc s f = (case myproc s of None \<Rightarrow> Inl (Fault ''myproc'') | Some p \<Rightarrow> f p)"

abbreviation INT_MAX :: int where "INT_MAX \<equiv> 2 ^ 31 - 1"

definition allocpid :: "'z pst \<Rightarrow> 'z pst stop + int \<times> 'z pst" where
  "allocpid s =
     (if nextpid s = INT_MAX then Inl (Fault ''allocpid: signed overflow'')
      else Inr (nextpid s, s\<lparr>nextpid := nextpid s + 1\<rparr>))"

definition proc_pagetable :: "nat \<Rightarrow> 'z pst \<Rightarrow> 'z pst stop + u64 \<times> 'z pst" where
  "proc_pagetable p s =
     (let (pagetable, s) = uvmcreate s in
      if pagetable = 0 then Inr (0, s)
      else
        bindE (mappages pagetable TRAMPOLINE PGSIZE (trampoline s) (PTE_R OR PTE_X) s) (\<lambda>(r, s).
        if r < 0 then bindE (uvmfree pagetable 0 s) (\<lambda>s. Inr (0, s))
        else
          bindE (mappages pagetable TRAPFRAME PGSIZE (p_trapframe (proc s p)) (PTE_R OR PTE_W) s) (\<lambda>(r, s).
          if r < 0
          then bindE (uvmunmap pagetable TRAMPOLINE 1 False s) (\<lambda>s.
               bindE (uvmfree pagetable 0 s) (\<lambda>s. Inr (0, s)))
          else Inr (pagetable, s))))"

definition proc_freepagetable :: "u64 \<Rightarrow> u64 \<Rightarrow> 'z pst \<Rightarrow> 'z pst stop + 'z pst" where
  "proc_freepagetable pagetable sz s =
     bindE (uvmunmap pagetable TRAMPOLINE 1 False s) (\<lambda>s.
     bindE (uvmunmap pagetable TRAPFRAME 1 False s) (\<lambda>s.
     uvmfree pagetable sz s))"

definition freeproc :: "nat \<Rightarrow> 'z pst \<Rightarrow> 'z pst stop + 'z pst" where
  "freeproc p s =
     bindE (if p_trapframe (proc s p) \<noteq> 0 then kfree (p_trapframe (proc s p)) s else Inr s) (\<lambda>s.
     let s = upd_proc p (\<lambda>r. r\<lparr>p_trapframe := 0\<rparr>) s in
     bindE (if p_pagetable (proc s p) \<noteq> 0
            then proc_freepagetable (p_pagetable (proc s p)) (p_sz (proc s p)) s else Inr s) (\<lambda>s.
     Inr (upd_proc p (\<lambda>r. r\<lparr>p_pagetable := 0, p_sz := 0, p_pid := 0, p_parent := None,
       p_name := (p_name r)(0 := 0), p_chan := None, p_killed := 0, p_xstate := 0,
       p_state := UNUSED\<rparr>) s)))"

definition allocproc :: "'z pst \<Rightarrow> 'z pst stop + nat option \<times> 'z pst" where
  "allocproc s =
     (case first_index (\<lambda>p. p_state (proc s p) = UNUSED) NPROC of
        None \<Rightarrow> Inr (None, s)
      | Some p \<Rightarrow>
          bindE (allocpid s) (\<lambda>(pid, s).
          let s = upd_proc p (\<lambda>r. r\<lparr>p_pid := pid, p_state := USED\<rparr>) s;
              (tf, s) = kalloc s;
              s = upd_proc p (\<lambda>r. r\<lparr>p_trapframe := tf\<rparr>) s in
          if tf = 0 then bindE (freeproc p s) (\<lambda>s. Inr (None, s))
          else bindE (proc_pagetable p s) (\<lambda>(pt, s).
            let s = upd_proc p (\<lambda>r. r\<lparr>p_pagetable := pt\<rparr>) s in
            if pt = 0 then bindE (freeproc p s) (\<lambda>s. Inr (None, s))
            else Inr (Some p, upd_proc p (\<lambda>r. r\<lparr>p_context :=
                   \<lparr>ctx_ra = forkret_pc s, ctx_sp = p_kstack r + PGSIZE, ctx_s = (\<lambda>_. 0)\<rparr>\<rparr>) s))))"

definition growproc :: "u32 \<Rightarrow> 'z pst \<Rightarrow> 'z pst stop + int \<times> 'z pst" where
  "growproc n s = with_myproc s (\<lambda>p.
     let pt = p_pagetable (proc s p); sz = p_sz (proc s p) in
     if sint n > 0
     then bindE (uvmalloc pt sz (sz + scast n) PTE_W s) (\<lambda>(sz', s).
          if sz' = 0 then Inr (- 1, s)
          else Inr (0, upd_proc p (\<lambda>r. r\<lparr>p_sz := sz'\<rparr>) s))
     else if sint n < 0
     then bindE (uvmdealloc pt sz (sz + scast n) s) (\<lambda>(sz', s).
          Inr (0, upd_proc p (\<lambda>r. r\<lparr>p_sz := sz'\<rparr>) s))
     else Inr (0, s))"

section \<open>Sleep, wakeup and the scheduler\<close>

text \<open>\<open>sched\<close> switches to the scheduler, which clears \<open>c->proc\<close>.\<close>

definition sched :: "'z pst \<Rightarrow> 'z pst stop + 'z pst" where
  "sched s = with_myproc s (\<lambda>p.
     if p_state (proc s p) = RUNNING then Inl (Panic ''sched running'')
     else Inr (s\<lparr>cpu_proc := (cpu_proc s)(hart s := None)\<rparr>))"

text \<open>One visit of the scheduler's loop to slot p.\<close>

definition scheduler_visit :: "nat \<Rightarrow> 'z pst \<Rightarrow> 'z pst" where
  "scheduler_visit p s =
     (if p_state (proc s p) = RUNNABLE
      then (upd_proc p (\<lambda>r. r\<lparr>p_state := RUNNING\<rparr>) s)\<lparr>cpu_proc := (cpu_proc s)(cpuid s := Some p)\<rparr>
      else s)"

definition yield :: "'z pst \<Rightarrow> 'z pst stop + 'z pst" where
  "yield s = with_myproc s (\<lambda>p. sched (upd_proc p (\<lambda>r. r\<lparr>p_state := RUNNABLE\<rparr>) s))"

definition sleep :: "chan \<Rightarrow> 'z pst \<Rightarrow> 'z pst stop + 'a" where
  "sleep c s = with_myproc s (\<lambda>p.
     bindE (sched (upd_proc p (\<lambda>r. r\<lparr>p_chan := Some c, p_state := SLEEPING\<rparr>) s)) (\<lambda>s.
     Inl (Asleep c s)))"

text \<open>What \<open>sleep\<close> does when the process runs again.\<close>

definition sleep_tidy :: "nat \<Rightarrow> 'z pst \<Rightarrow> 'z pst" where
  "sleep_tidy p s = upd_proc p (\<lambda>r. r\<lparr>p_chan := None\<rparr>) s"

definition wakeup_one :: "chan option \<Rightarrow> nat \<Rightarrow> 'z pst \<Rightarrow> 'z pst" where
  "wakeup_one c p s =
     (if Some p \<noteq> myproc s \<and> p_state (proc s p) = SLEEPING \<and> p_chan (proc s p) = c
      then upd_proc p (\<lambda>r. r\<lparr>p_state := RUNNABLE\<rparr>) s else s)"

definition wakeup :: "chan option \<Rightarrow> 'z pst \<Rightarrow> 'z pst" where
  "wakeup c s = fold (wakeup_one c) [0..<NPROC] s"

definition kill :: "int \<Rightarrow> 'z pst \<Rightarrow> int \<times> 'z pst" where
  "kill pid s =
     (case first_index (\<lambda>p. p_pid (proc s p) = pid) NPROC of
        None \<Rightarrow> (- 1, s)
      | Some p \<Rightarrow> (0, upd_proc p (\<lambda>r. r\<lparr>p_killed := 1,
          p_state := (if p_state r = SLEEPING then RUNNABLE else p_state r)\<rparr>) s))"

definition setkilled :: "nat \<Rightarrow> 'z pst \<Rightarrow> 'z pst" where
  "setkilled p s = upd_proc p (\<lambda>r. r\<lparr>p_killed := 1\<rparr>) s"

definition killed :: "nat \<Rightarrow> 'z pst \<Rightarrow> int" where
  "killed p s = p_killed (proc s p)"

definition chan_of_proc :: "nat option \<Rightarrow> chan option" where
  "chan_of_proc = map_option ChanProc"

definition reparent_one :: "nat \<Rightarrow> nat \<Rightarrow> 'z pst \<Rightarrow> 'z pst" where
  "reparent_one p pp s =
     (if p_parent (proc s pp) = Some p
      then wakeup (chan_of_proc (initproc s)) (upd_proc pp (\<lambda>r. r\<lparr>p_parent := initproc s\<rparr>) s)
      else s)"

definition reparent :: "nat \<Rightarrow> 'z pst \<Rightarrow> 'z pst" where
  "reparent p s = fold (reparent_one p) [0..<NPROC] s"

text \<open>
  \<open>wait\<close>: the scan stops at the first child that is a zombie; the earlier slots are not
  changed.  Sleeping on the process's own channel is the outcome Asleep, after which the
  scan starts again.
\<close>

definition wait :: "u64 \<Rightarrow> 'z pst \<Rightarrow> 'z pst stop + int \<times> 'z pst" where
  "wait addr s = with_myproc s (\<lambda>p.
     case first_index (\<lambda>pp. p_parent (proc s pp) = Some p \<and> p_state (proc s pp) = ZOMBIE) NPROC of
       Some pp \<Rightarrow>
         let pid = p_pid (proc s pp);
             (r, s) = (if addr \<noteq> 0
               then copyout (p_pagetable (proc s p)) addr
                      (le_encode 4 (unat (word_of_int (p_xstate (proc s pp)) :: u32))) s
               else (0, s)) in
         if r < 0 then Inr (- 1, s)
         else bindE (freeproc pp s) (\<lambda>s. Inr (pid, s))
     | None \<Rightarrow>
         if \<not> (\<exists>pp<NPROC. p_parent (proc s pp) = Some p) \<or> killed p s \<noteq> 0 then Inr (- 1, s)
         else sleep (ChanProc p) s)"

text \<open>
  The last part of \<open>fork\<close>, which publishes the child, and the last part of \<open>exit\<close>, from
  \<open>acquire(&wait_lock)\<close> on; the complete functions are in ProcLife.
\<close>

definition fork_publish :: "nat \<Rightarrow> nat \<Rightarrow> 'z pst \<Rightarrow> 'z pst" where
  "fork_publish p np s = upd_proc np (\<lambda>r. r\<lparr>p_state := RUNNABLE\<rparr>)
     (upd_proc np (\<lambda>r. r\<lparr>p_parent := Some p\<rparr>) s)"

definition exit_zombie :: "int \<Rightarrow> 'z pst \<Rightarrow> 'z pst stop + 'z pst" where
  "exit_zombie status s = with_myproc s (\<lambda>p.
     let s = reparent p s;
         s = wakeup (chan_of_proc (p_parent (proc s p))) s
     in sched (upd_proc p (\<lambda>r. r\<lparr>p_xstate := status, p_state := ZOMBIE\<rparr>) s))"

section \<open>Copies and listings\<close>

definition either_copyout :: "bool \<Rightarrow> u64 \<Rightarrow> u8 list \<Rightarrow> 'z pst \<Rightarrow> 'z pst stop + int \<times> 'z pst" where
  "either_copyout user_dst dst src s =
     (if user_dst then with_myproc s (\<lambda>p. Inr (copyout (p_pagetable (proc s p)) dst src s))
      else Inr (0, s\<lparr>mem := storen (mem s) dst src\<rparr>))"

definition either_copyin :: "bool \<Rightarrow> u64 \<Rightarrow> nat \<Rightarrow> 'z pst \<Rightarrow> 'z pst stop + int \<times> u8 list" where
  "either_copyin user_src src len s =
     (if user_src then with_myproc s (\<lambda>p. Inr (copyin (p_pagetable (proc s p)) src len s))
      else Inr (0, loadn (mem s) src len))"

definition states :: "procstate \<Rightarrow> string" where
  "states st = (case st of UNUSED \<Rightarrow> ''unused'' | USED \<Rightarrow> ''used'' | SLEEPING \<Rightarrow> ''sleeping''
     | RUNNABLE \<Rightarrow> ''runnable'' | RUNNING \<Rightarrow> ''running'' | ZOMBIE \<Rightarrow> ''zombie'')"

text \<open>The C string in \<open>p->name\<close>.\<close>

definition name_str :: "(nat \<Rightarrow> u8) \<Rightarrow> string" where
  "name_str nm = map (\<lambda>c. char_of (unat c)) (takeWhile (\<lambda>c. c \<noteq> 0) (map nm [0..<16]))"

definition arg_int :: "int \<Rightarrow> arg" where
  "arg_int i = ArgInt (word_of_int i)"

definition newline :: string where "newline = [char_of (10 :: nat)]"

definition procdump :: "'z pst \<Rightarrow> 'z pst stop + 'z pst" where
  "procdump s = bindE (kprintf newline [] s) (foldE (\<lambda>p s.
     if p_state (proc s p) = UNUSED then Inr s
     else bindE (kprintf ''%d %s %s'' [arg_int (p_pid (proc s p)),
            ArgStr (Some (states (p_state (proc s p)))), ArgStr (Some (name_str (p_name (proc s p))))] s)
          (kprintf newline [])) [0..<NPROC])"

definition count_state :: "procstate \<Rightarrow> 'z pst \<Rightarrow> int" where
  "count_state st s = fold (\<lambda>i n. if p_state (proc s i) = st then n + 1 else n) [0..<NPROC] 0"

text \<open>
  The counters of \<open>struct top\<close> are stored in the global \<open>topp\<close> and printed; the table
  of the structure is never filled.  \<open>info\<close> only carries a pid to the next \<open>printf\<close>.
\<close>

definition get_top_info :: "'z pst \<Rightarrow> 'z pst stop + int \<times> 'z pst" where
  "get_top_info s =
     (let s = s\<lparr>topp := \<lparr>uptime = ticks s, total_process = int NPROC - count_state UNUSED s,
           running_process = count_state RUNNING s, sleeping_process = count_state SLEEPING s\<rparr>\<rparr> in
     bindE (kprintf (newline @ ''uptime:%d seconds'') [ArgInt (uptime (topp s))] s) (\<lambda>s.
     bindE (kprintf (newline @ ''Total process: %d'' @ newline) [arg_int (total_process (topp s))] s) (\<lambda>s.
     bindE (kprintf (''Running process: %d'' @ newline) [arg_int (running_process (topp s))] s) (\<lambda>s.
     bindE (kprintf (''Sleeping process: %d'' @ newline) [arg_int (sleeping_process (topp s))] s) (\<lambda>s.
     bindE (kprintf (''process data:'' @ newline) [] s) (\<lambda>s.
     bindE (kprintf (''name    PID    state        PPID'' @ newline) [] s) (\<lambda>s.
     bindE (foldE (\<lambda>p s.
       if p_state (proc s p) = UNUSED then Inr s
       else bindE (kprintf ''%s      %d      %s'' [ArgStr (Some (name_str (p_name (proc s p)))),
              arg_int (p_pid (proc s p)), ArgStr (Some (states (p_state (proc s p))))] s) (\<lambda>s.
            bindE (case p_parent (proc s p) of
                     Some q \<Rightarrow> kprintf ''        %d'' [arg_int (p_pid (proc s q))] s
                   | None \<Rightarrow> kprintf ''    %d'' [arg_int 0] s)
            (kprintf newline []))) [0..<NPROC] s) (\<lambda>s.
     Inr (0, s)))))))))"

section \<open>What the operations do to the table\<close>

lemma upd_proc_simps [simp]:
  "proc (upd_proc p f s) = (proc s)(p := f (proc s p))"
  "nextpid (upd_proc p f s) = nextpid s" "initproc (upd_proc p f s) = initproc s"
  "cpu_proc (upd_proc p f s) = cpu_proc s" "hart (upd_proc p f s) = hart s"
  "myproc (upd_proc p f s) = myproc s" "mem (upd_proc p f s) = mem s"
  "freelist (upd_proc p f s) = freelist s" "kend (upd_proc p f s) = kend s"
  "proc_state.more (upd_proc p f s) = proc_state.more s"
  "forkret_pc (upd_proc p f s) = forkret_pc s" "trampoline (upd_proc p f s) = trampoline s"
  by (simp_all add: upd_proc_def myproc_def cpuid_def)

text \<open>The part of the state the process code reads, apart from memory.\<close>

definition same_procs :: "'z pst \<Rightarrow> 'z pst \<Rightarrow> bool" where
  "same_procs s s' \<longleftrightarrow> proc s' = proc s \<and> nextpid s' = nextpid s \<and> initproc s' = initproc s \<and>
     cpu_proc s' = cpu_proc s \<and> hart s' = hart s \<and> forkret_pc s' = forkret_pc s \<and>
     proc_state.more s' = proc_state.more s"

lemma km_frame_same_procs: "km_frame s s' \<Longrightarrow> same_procs s s'" for s s' :: "'z pst"
  by (cases s; cases s') (simp add: km_frame_def same_procs_def)

lemma same_procs_trans [trans]: "same_procs s t \<Longrightarrow> same_procs t u \<Longrightarrow> same_procs s u"
  by (simp add: same_procs_def)

lemma same_procs_refl [simp]: "same_procs s s"
  by (simp add: same_procs_def)

lemma proc_pagetable_frame: "proc_pagetable p s = Inr (pt, s') \<Longrightarrow> km_frame s s'"
  by (auto simp: proc_pagetable_def split: if_splits prod.splits
      dest!: uvmcreate_frame mappages_frame uvmunmap_frame uvmfree_frame) (auto simp: km_frame_def)

lemma proc_freepagetable_frame: "proc_freepagetable pt n s = Inr s' \<Longrightarrow> km_frame s s'"
  by (auto simp: proc_freepagetable_def dest!: uvmunmap_frame uvmfree_frame intro: km_frame_trans)

definition cleared :: "proc \<Rightarrow> proc" where
  "cleared r = r\<lparr>p_trapframe := 0, p_pagetable := 0, p_sz := 0, p_pid := 0, p_parent := None,
     p_name := (p_name r)(0 := 0), p_chan := None, p_killed := 0, p_xstate := 0, p_state := UNUSED\<rparr>"

lemma cleared_idem: "cleared (cleared r) = cleared r" "p_state (cleared r) = UNUSED"
  by (simp_all add: cleared_def)

lemma cleared_unused:
  "p_pid (cleared r) = 0" "p_trapframe (cleared r) = 0" "p_pagetable (cleared r) = 0"
  "p_sz (cleared r) = 0" "p_parent (cleared r) = None" "p_chan (cleared r) = None"
  by (simp_all add: cleared_def)

lemma freeproc_table:
  assumes "freeproc p s = Inr s'"
  shows "same_procs (s\<lparr>proc := (proc s)(p := cleared (proc s p))\<rparr>) s'"
proof -
  from assms obtain t where
    t: "(if p_trapframe (proc s p) \<noteq> 0 then kfree (p_trapframe (proc s p)) s else Inr s) = Inr t"
    by (auto simp: freeproc_def)
  let ?t = "upd_proc p (\<lambda>r. r\<lparr>p_trapframe := 0\<rparr>) t"
  from assms t obtain u where
    u: "(if p_pagetable (proc ?t p) \<noteq> 0
         then proc_freepagetable (p_pagetable (proc ?t p)) (p_sz (proc ?t p)) ?t else Inr ?t) = Inr u"
    and s': "s' = upd_proc p (\<lambda>r. r\<lparr>p_pagetable := 0, p_sz := 0, p_pid := 0, p_parent := None,
       p_name := (p_name r)(0 := 0), p_chan := None, p_killed := 0, p_xstate := 0,
       p_state := UNUSED\<rparr>) u"
    by (auto simp: freeproc_def Let_def)
  have "same_procs s t" using t by (auto split: if_splits dest: kfree_frame km_frame_same_procs)
  moreover have "same_procs ?t u"
    using u by (auto split: if_splits dest: proc_freepagetable_frame km_frame_same_procs)
  ultimately show ?thesis by (simp add: same_procs_def s' cleared_def)
qed

lemma allocproc_table:
  assumes "allocproc s = Inr (r, s')"
  shows "case first_index (\<lambda>p. p_state (proc s p) = UNUSED) NPROC of
      None \<Rightarrow> r = None \<and> s' = s
    | Some p \<Rightarrow> nextpid s \<noteq> INT_MAX \<and>
        (\<exists>q. same_procs (s\<lparr>nextpid := nextpid s + 1, proc := (proc s)(p := q)\<rparr>) s' \<and>
          (case r of
             None \<Rightarrow> p_state q = UNUSED \<and> q = cleared q
           | Some p' \<Rightarrow> p' = p \<and> p_state q = USED \<and> p_pid q = nextpid s \<and> p_trapframe q \<noteq> 0 \<and>
               p_pagetable q \<noteq> 0 \<and>
               q = (proc s p)\<lparr>p_state := USED, p_pid := nextpid s, p_trapframe := p_trapframe q,
                     p_pagetable := p_pagetable q,
                     p_context := \<lparr>ctx_ra = forkret_pc s, ctx_sp = p_kstack (proc s p) + PGSIZE,
                       ctx_s = (\<lambda>_. 0)\<rparr>\<rparr>))"
proof (cases "first_index (\<lambda>p. p_state (proc s p) = UNUSED) NPROC")
  case None
  then show ?thesis using assms unfolding allocproc_def None by simp
next
  case (Some p)
  with assms have np: "nextpid s \<noteq> INT_MAX" by (auto simp: allocproc_def allocpid_def)
  define t0 where "t0 = upd_proc p (\<lambda>r. r\<lparr>p_pid := nextpid s, p_state := USED\<rparr>)
    (s\<lparr>nextpid := nextpid s + 1\<rparr>)"
  obtain tf t1 where k: "kalloc t0 = (tf, t1)" by fastforce
  define t where "t = upd_proc p (\<lambda>r. r\<lparr>p_trapframe := tf\<rparr>) t1"
  have t01: "same_procs t0 t1" using k by (auto dest: kalloc_frame km_frame_same_procs)
  have body: "(if tf = 0 then bindE (freeproc p t) (\<lambda>s. Inr (None, s))
      else bindE (proc_pagetable p t) (\<lambda>(pt, s).
        let s = upd_proc p (\<lambda>r. r\<lparr>p_pagetable := pt\<rparr>) s in
        if pt = 0 then bindE (freeproc p s) (\<lambda>s. Inr (None, s))
        else Inr (Some p, upd_proc p (\<lambda>r. r\<lparr>p_context :=
               \<lparr>ctx_ra = forkret_pc s, ctx_sp = p_kstack r + PGSIZE, ctx_s = (\<lambda>_. 0)\<rparr>\<rparr>) s))) = Inr (r, s')"
    using assms Some np k unfolding t_def
    by (simp add: allocproc_def allocpid_def t0_def Let_def del: bindE_eq_Inr Inr_eq_bindE split del: if_split)
  show ?thesis
  proof (cases "tf = 0")
    case True
    then have "freeproc p t = Inr s'" "r = None" using body by auto
    moreover have "same_procs (s\<lparr>nextpid := nextpid s + 1, proc := (proc s)(p := cleared (proc t p))\<rparr>) s'"
      using freeproc_table [OF \<open>freeproc p t = Inr s'\<close>] t01 by (simp add: same_procs_def t0_def t_def)
    ultimately show ?thesis
      unfolding Some option.case using np cleared_idem
      by (intro conjI exI [of _ "cleared (proc t p)"]) simp_all
  next
    case False
    then obtain pt u where u: "proc_pagetable p t = Inr (pt, u)" using body by auto
    have tu: "same_procs t u" using u by (auto dest: proc_pagetable_frame km_frame_same_procs)
    show ?thesis
    proof (cases "pt = 0")
      case True
      then have f: "freeproc p (upd_proc p (\<lambda>r. r\<lparr>p_pagetable := pt\<rparr>) u) = Inr s'" and "r = None"
        using body False u by auto
      moreover have "same_procs (s\<lparr>nextpid := nextpid s + 1, proc := (proc s)(p := cleared (proc t p))\<rparr>) s'"
        using freeproc_table [OF f] t01 tu by (simp add: same_procs_def t0_def t_def cleared_def)
      ultimately show ?thesis
        unfolding Some option.case using np cleared_idem
        by (intro conjI exI [of _ "cleared (proc t p)"]) simp_all
    next
      case pt: False
      then have "r = Some p" "s' = upd_proc p (\<lambda>r. r\<lparr>p_pagetable := pt, p_context :=
          \<lparr>ctx_ra = forkret_pc u, ctx_sp = p_kstack r + PGSIZE, ctx_s = (\<lambda>_. 0)\<rparr>\<rparr>) u"
        using body False u by (auto simp: Let_def upd_proc_def)
      moreover from this have "same_procs (s\<lparr>nextpid := nextpid s + 1, proc := (proc s)(p := proc s' p)\<rparr>) s'"
        using t01 tu by (simp add: same_procs_def t0_def t_def)
      moreover have "p_state (proc s' p) = USED \<and> p_pid (proc s' p) = nextpid s \<and>
          p_trapframe (proc s' p) \<noteq> 0 \<and> p_pagetable (proc s' p) \<noteq> 0 \<and>
          proc s' p = (proc s p)\<lparr>p_state := USED, p_pid := nextpid s, p_trapframe := p_trapframe (proc s' p),
             p_pagetable := p_pagetable (proc s' p),
             p_context := \<lparr>ctx_ra = forkret_pc s, ctx_sp = p_kstack (proc s p) + PGSIZE, ctx_s = (\<lambda>_. 0)\<rparr>\<rparr>"
        using calculation t01 tu False pt by (simp add: same_procs_def t0_def t_def)
      ultimately show ?thesis
        unfolding Some option.case using np
        by (intro conjI exI [of _ "proc s' p"]) simp_all
    qed
  qed
qed

lemma fold_upd_proc:
  assumes "distinct xs"
  shows "proc (fold (\<lambda>p. upd_proc p (g p)) xs s) = (\<lambda>p. if p \<in> set xs then g p (proc s p) else proc s p)"
  using assms by (induction xs arbitrary: s) (auto simp: fun_eq_iff)

lemma fold_upd_proc_frame:
  "cpu_proc (fold (\<lambda>p. upd_proc p (g p)) xs s) = cpu_proc s \<and> hart (fold (\<lambda>p. upd_proc p (g p)) xs s) = hart s \<and>
   nextpid (fold (\<lambda>p. upd_proc p (g p)) xs s) = nextpid s \<and>
   initproc (fold (\<lambda>p. upd_proc p (g p)) xs s) = initproc s"
  by (induction xs arbitrary: s) auto

definition woken :: "chan option \<Rightarrow> nat option \<Rightarrow> nat \<Rightarrow> proc \<Rightarrow> proc" where
  "woken c me p r =
     (if Some p \<noteq> me \<and> p_state r = SLEEPING \<and> p_chan r = c then r\<lparr>p_state := RUNNABLE\<rparr> else r)"

lemma wakeup_one_upd: "wakeup_one c p s = upd_proc p (woken c (myproc s) p) s"
  by (simp add: wakeup_one_def woken_def upd_proc_def)

lemma wakeup_fold: "fold (wakeup_one c) xs s = fold (\<lambda>p. upd_proc p (woken c (myproc s) p)) xs s"
  by (induction xs arbitrary: s) (simp_all add: wakeup_one_upd)

text \<open>\<open>wakeup\<close> makes exactly the sleepers on the channel runnable, other than the caller.\<close>

lemma wakeup_table:
  "proc (wakeup c s) = (\<lambda>p. if p < NPROC then woken c (myproc s) p (proc s p) else proc s p)"
  by (simp add: wakeup_def wakeup_fold fold_upd_proc del: upt_rec_numeral)

lemma wakeup_frame [simp]:
  "cpu_proc (wakeup c s) = cpu_proc s" "hart (wakeup c s) = hart s" "nextpid (wakeup c s) = nextpid s"
  "initproc (wakeup c s) = initproc s" "myproc (wakeup c s) = myproc s"
  using fold_upd_proc_frame [of "\<lambda>p. woken c (myproc s) p" "[0..<NPROC]" s]
  by (simp_all add: wakeup_def wakeup_fold myproc_def cpuid_def del: upt_rec_numeral)

section \<open>The invariant of the process table\<close>

text \<open>
  A free slot owns nothing; the pids of the slots in use are positive, below \<open>nextpid\<close>
  and pairwise different; a process is running exactly when one hart has it as its
  current process, and no two harts have the same one; a sleeper has a channel.
\<close>

definition unused_ok :: "proc \<Rightarrow> bool" where
  "unused_ok r \<longleftrightarrow> p_pid r = 0 \<and> p_trapframe r = 0 \<and> p_pagetable r = 0 \<and> p_sz r = 0 \<and>
     p_parent r = None \<and> p_chan r = None"

definition slot_ok :: "'z pst \<Rightarrow> proc \<Rightarrow> bool" where
  "slot_ok s r \<longleftrightarrow> (if p_state r = UNUSED then unused_ok r else 0 < p_pid r \<and> p_pid r < nextpid s) \<and>
     (p_state r = SLEEPING \<longrightarrow> p_chan r \<noteq> None) \<and> (\<forall>q. p_parent r = Some q \<longrightarrow> q < NPROC)"

definition proc_inv :: "'z pst \<Rightarrow> bool" where
  "proc_inv s \<longleftrightarrow>
     (\<forall>p<NPROC. slot_ok s (proc s p)) \<and>
     (\<forall>p<NPROC. \<forall>q<NPROC. p_state (proc s p) \<noteq> UNUSED \<and> p_pid (proc s p) = p_pid (proc s q) \<longrightarrow> p = q) \<and>
     (\<forall>c p. cpu_proc s c = Some p \<longrightarrow> p < NPROC \<and> p_state (proc s p) = RUNNING) \<and>
     (\<forall>c c' p. cpu_proc s c = Some p \<and> cpu_proc s c' = Some p \<longrightarrow> c = c') \<and>
     (\<forall>p<NPROC. p_state (proc s p) = RUNNING \<longrightarrow> (\<exists>c. cpu_proc s c = Some p)) \<and>
     (\<forall>p. initproc s = Some p \<longrightarrow> p < NPROC) \<and> 0 < nextpid s \<and> nextpid s \<le> INT_MAX"

text \<open>A change of slots that keeps pids and who is unused or running keeps the invariant.\<close>

lemma proc_inv_slots:
  assumes "proc_inv s"
    and "cpu_proc s' = cpu_proc s" and "nextpid s' = nextpid s" and "initproc s' = initproc s"
    and "\<And>p. p < NPROC \<Longrightarrow> slot_ok s (proc s' p) \<and> p_pid (proc s' p) = p_pid (proc s p) \<and>
      (p_state (proc s' p) = UNUSED \<longleftrightarrow> p_state (proc s p) = UNUSED) \<and>
      (p_state (proc s' p) = RUNNING \<longleftrightarrow> p_state (proc s p) = RUNNING)"
  shows "proc_inv s'"
proof -
  have slot: "slot_ok s' = slot_ok s" by (simp add: fun_eq_iff slot_ok_def assms(3))
  have st: "p < NPROC \<Longrightarrow> p_pid (proc s' p) = p_pid (proc s p)"
    "p < NPROC \<Longrightarrow> p_state (proc s' p) = UNUSED \<longleftrightarrow> p_state (proc s p) = UNUSED"
    "p < NPROC \<Longrightarrow> p_state (proc s' p) = RUNNING \<longleftrightarrow> p_state (proc s p) = RUNNING" for p
    using assms(5) by blast+
  show ?thesis
    using assms(1,5) unfolding proc_inv_def assms(2-4) slot
    by (simp add: st cong: conj_cong imp_cong)
qed

lemma proc_inv_slot: "proc_inv s \<Longrightarrow> p < NPROC \<Longrightarrow> slot_ok s (proc s p)"
  by (simp add: proc_inv_def)

lemma proc_inv_inj:
  "proc_inv s \<Longrightarrow> p < NPROC \<Longrightarrow> q < NPROC \<Longrightarrow> p_state (proc s p) \<noteq> UNUSED \<Longrightarrow>
    p_pid (proc s p) = p_pid (proc s q) \<Longrightarrow> p = q"
  unfolding proc_inv_def by blast

lemma proc_inv_cpu: "proc_inv s \<Longrightarrow> cpu_proc s c = Some p \<Longrightarrow> p < NPROC \<and> p_state (proc s p) = RUNNING"
  unfolding proc_inv_def by blast

lemma proc_inv_cpu_inj: "proc_inv s \<Longrightarrow> cpu_proc s c = Some p \<Longrightarrow> cpu_proc s c' = Some p \<Longrightarrow> c = c'"
  unfolding proc_inv_def by blast

lemma proc_inv_has_cpu: "proc_inv s \<Longrightarrow> p < NPROC \<Longrightarrow> p_state (proc s p) = RUNNING \<Longrightarrow> \<exists>c. cpu_proc s c = Some p"
  unfolding proc_inv_def by blast

lemma proc_inv_misc:
  "proc_inv s \<Longrightarrow> initproc s = Some p \<Longrightarrow> p < NPROC" "proc_inv s \<Longrightarrow> 0 < nextpid s"
  "proc_inv s \<Longrightarrow> nextpid s \<le> INT_MAX"
  unfolding proc_inv_def by blast+

lemma proc_invI:
  assumes "\<And>p. p < NPROC \<Longrightarrow> slot_ok s (proc s p)"
    and "\<And>p q. p < NPROC \<Longrightarrow> q < NPROC \<Longrightarrow> p_state (proc s p) \<noteq> UNUSED \<Longrightarrow>
      p_pid (proc s p) = p_pid (proc s q) \<Longrightarrow> p = q"
    and "\<And>c p. cpu_proc s c = Some p \<Longrightarrow> p < NPROC \<and> p_state (proc s p) = RUNNING"
    and "\<And>c c' p. cpu_proc s c = Some p \<Longrightarrow> cpu_proc s c' = Some p \<Longrightarrow> c = c'"
    and "\<And>p. p < NPROC \<Longrightarrow> p_state (proc s p) = RUNNING \<Longrightarrow> \<exists>c. cpu_proc s c = Some p"
    and "\<And>p. initproc s = Some p \<Longrightarrow> p < NPROC" and "0 < nextpid s" and "nextpid s \<le> INT_MAX"
  shows "proc_inv s"
  unfolding proc_inv_def using assms by blast

lemma proc_inv_same:
  assumes "proc_inv s" and "same_procs s s'"
  shows "proc_inv s'"
  using assms(1) by (rule proc_inv_slots) (use assms in \<open>auto simp: same_procs_def proc_inv_slot\<close>)

lemma proc_inv_hart:
  assumes "proc_inv s"
  shows "proc_inv (s\<lparr>hart := h\<rparr>)"
  using assms by (rule proc_inv_slots) (use assms in \<open>auto simp: proc_inv_slot\<close>)

lemma proc_inv_upd:
  assumes "proc_inv s" and "p_pid (f (proc s p)) = p_pid (proc s p)" and "slot_ok s (f (proc s p))"
    and "p_state (f (proc s p)) = UNUSED \<longleftrightarrow> p_state (proc s p) = UNUSED"
    and "p_state (f (proc s p)) = RUNNING \<longleftrightarrow> p_state (proc s p) = RUNNING"
  shows "proc_inv (upd_proc p f s)"
  using assms(1) by (rule proc_inv_slots) (use assms in \<open>auto simp: proc_inv_slot\<close>)

lemma slot_ok_woken: "slot_ok s r \<Longrightarrow> slot_ok s (woken c me p r)"
  by (auto simp: slot_ok_def woken_def)

lemma woken_simps [simp]:
  "p_pid (woken c me p r) = p_pid r"
  "p_state (woken c me p r) = UNUSED \<longleftrightarrow> p_state r = UNUSED"
  "p_state (woken c me p r) = RUNNING \<longleftrightarrow> p_state r = RUNNING"
  by (simp_all add: woken_def)

lemma proc_inv_wakeup:
  assumes "proc_inv s"
  shows "proc_inv (wakeup c s)"
  using assms by (rule proc_inv_slots)
    (use assms in \<open>auto simp: wakeup_table proc_inv_slot intro: slot_ok_woken\<close>)

lemma proc_inv_kill:
  assumes "proc_inv s" and "kill pid s = (r, s')"
  shows "proc_inv s'"
proof (cases "first_index (\<lambda>p. p_pid (proc s p) = pid) NPROC")
  case None
  then show ?thesis using assms unfolding kill_def None by simp
next
  case (Some p)
  then have "p < NPROC" by (auto dest: first_index_SomeD)
  then have ok: "slot_ok s (proc s p)" using assms(1) by (simp add: proc_inv_slot)
  have "s' = upd_proc p (\<lambda>r. r\<lparr>p_killed := 1,
      p_state := (if p_state r = SLEEPING then RUNNABLE else p_state r)\<rparr>) s"
    using assms(2) unfolding kill_def Some by simp
  then show ?thesis using ok
    by (auto intro!: proc_inv_upd [OF assms(1)] simp: slot_ok_def unused_ok_def split: if_splits)
qed

lemma proc_inv_setkilled:
  assumes "proc_inv s" and "p < NPROC"
  shows "proc_inv (setkilled p s)"
  unfolding setkilled_def using assms(1) by (rule proc_inv_upd)
    (use proc_inv_slot [OF assms] in \<open>auto simp: slot_ok_def unused_ok_def\<close>)

lemma proc_inv_running:
  "proc_inv s \<Longrightarrow> myproc s = Some p \<Longrightarrow> p < NPROC \<and> p_state (proc s p) = RUNNING"
  by (auto simp: proc_inv_def myproc_def)

lemma proc_inv_tidy:
  assumes "proc_inv s" and "myproc s = Some p"
  shows "proc_inv (sleep_tidy p s)"
proof -
  note run = proc_inv_running [OF assms]
  then have "slot_ok s (proc s p)" using assms(1) by (simp add: proc_inv_slot)
  with run show ?thesis unfolding sleep_tidy_def
    by (intro proc_inv_upd [OF assms(1)]) (auto simp: slot_ok_def)
qed

lemma proc_inv_reparent_one:
  assumes "proc_inv s" and "pp < NPROC"
  shows "proc_inv (reparent_one p pp s)"
proof (cases "p_parent (proc s pp) = Some p")
  case True
  have ok: "slot_ok s (proc s pp)" using assms by (rule proc_inv_slot)
  have init: "initproc s = Some q \<Longrightarrow> q < NPROC" for q using assms(1) by (simp add: proc_inv_def)
  have "slot_ok s ((proc s pp)\<lparr>p_parent := initproc s\<rparr>)"
    using ok True init by (auto simp: slot_ok_def unused_ok_def)
  then show ?thesis unfolding reparent_one_def
    using True by (auto intro!: proc_inv_wakeup proc_inv_upd [OF assms(1)])
qed (simp add: reparent_one_def assms(1))

lemma proc_inv_reparent: "proc_inv s \<Longrightarrow> proc_inv (reparent p s)"
proof -
  have "proc_inv (fold (reparent_one p) xs s)" if "proc_inv s" "set xs \<subseteq> {..<NPROC}" for xs and s :: "'a pst"
    using that by (induction xs arbitrary: s) (auto intro: proc_inv_reparent_one)
  then show "proc_inv s \<Longrightarrow> proc_inv (reparent p s)"
    unfolding reparent_def by (simp add: lessThan_atLeast0 del: upt_rec_numeral)
qed

text \<open>Allocating and freeing slots.\<close>

lemma proc_inv_not_running:
  "proc_inv s \<Longrightarrow> p_state (proc s p) \<noteq> RUNNING \<Longrightarrow> cpu_proc s c \<noteq> Some p"
  using proc_inv_cpu by blast

lemma slot_pid: "slot_ok s r \<Longrightarrow> p_pid r < nextpid s \<or> p_pid r = 0"
  by (auto simp: slot_ok_def unused_ok_def split: if_splits)

lemma slot_pid_pos: "slot_ok s r \<Longrightarrow> p_state r \<noteq> UNUSED \<longleftrightarrow> 0 < p_pid r"
  by (auto simp: slot_ok_def unused_ok_def split: if_splits)

lemma proc_inv_new_pid:
  assumes inv: "proc_inv s" and p: "p < NPROC" "p_state (proc s p) = UNUSED"
    and np: "nextpid s \<noteq> INT_MAX"
    and sp: "same_procs (s\<lparr>nextpid := nextpid s + 1, proc := (proc s)(p := q)\<rparr>) s'"
    and q: "p_state q = UNUSED \<and> unused_ok q \<or>
      p_state q = USED \<and> p_pid q = nextpid s \<and> p_parent q = p_parent (proc s p)"
  shows "proc_inv s'"
proof -
  let ?t = "s\<lparr>nextpid := nextpid s + 1, proc := (proc s)(p := q)\<rparr>"
  note slot = proc_inv_slot [OF inv]
  have pos: "0 < nextpid s" by (rule proc_inv_misc [OF inv])
  have "p_parent (proc s p) = None" using slot [OF p(1)] p(2) by (simp add: slot_ok_def unused_ok_def)
  then have slotq: "slot_ok ?t q" using q pos by (auto simp: slot_ok_def unused_ok_def)
  have slott: "slot_ok ?t (proc ?t x)" if "x < NPROC" for x
    using slotq slot [OF that] by (auto simp: slot_ok_def)
  have "proc_inv ?t"
  proof (rule proc_invI)
    fix x y assume xy: "x < NPROC" "y < NPROC" "p_state (proc ?t x) \<noteq> UNUSED"
      "p_pid (proc ?t x) = p_pid (proc ?t y)"
    have less: "z < NPROC \<Longrightarrow> p_pid (proc s z) < nextpid s" for z using slot_pid [OF slot, of z] pos by fastforce
    have "0 < p_pid (proc ?t x)" using slot_pid_pos [OF slott [OF xy(1)]] xy(3) by blast
    then have "p_state (proc ?t y) \<noteq> UNUSED" using slot_pid_pos [OF slott [OF xy(2)]] xy(4) by simp
    then show "x = y"
      using xy q less [of x] less [of y] proc_inv_inj [OF inv, of x y] by (auto split: if_splits)
  next
    show "cpu_proc ?t c = Some x \<Longrightarrow> x < NPROC \<and> p_state (proc ?t x) = RUNNING" for c x
      using proc_inv_cpu [OF inv, of c x] p(2) by auto
    show "x < NPROC \<Longrightarrow> p_state (proc ?t x) = RUNNING \<Longrightarrow> \<exists>c. cpu_proc ?t c = Some x" for x
      using proc_inv_has_cpu [OF inv, of x] q by (auto split: if_splits)
    show "cpu_proc ?t c = Some x \<Longrightarrow> cpu_proc ?t c' = Some x \<Longrightarrow> c = c'" for c c' x
      using proc_inv_cpu_inj [OF inv, of c x c'] by simp
  qed (use slott pos np proc_inv_misc [OF inv] in auto)
  then show ?thesis using sp by (rule proc_inv_same)
qed

lemma proc_inv_allocproc:
  assumes "proc_inv s" and "allocproc s = Inr (r, s')"
  shows "proc_inv s'"
proof (cases "first_index (\<lambda>p. p_state (proc s p) = UNUSED) NPROC")
  case None
  then show ?thesis using allocproc_table [OF assms(2)] assms(1) unfolding None by simp
next
  case (Some p)
  then have p: "p < NPROC" "p_state (proc s p) = UNUSED" by (auto dest: first_index_SomeD)
  from allocproc_table [OF assms(2)] obtain q where np: "nextpid s \<noteq> INT_MAX"
    and sp: "same_procs (s\<lparr>nextpid := nextpid s + 1, proc := (proc s)(p := q)\<rparr>) s'"
    and q: "case r of None \<Rightarrow> p_state q = UNUSED \<and> q = cleared q
      | Some p' \<Rightarrow> p' = p \<and> p_state q = USED \<and> p_pid q = nextpid s \<and> p_trapframe q \<noteq> 0 \<and>
          p_pagetable q \<noteq> 0 \<and>
          q = (proc s p)\<lparr>p_state := USED, p_pid := nextpid s, p_trapframe := p_trapframe q,
            p_pagetable := p_pagetable q,
            p_context := \<lparr>ctx_ra = forkret_pc s, ctx_sp = p_kstack (proc s p) + PGSIZE,
              ctx_s = (\<lambda>_. 0)\<rparr>\<rparr>"
    unfolding Some option.case by blast
  have "p_state q = UNUSED \<and> unused_ok q \<or>
      p_state q = USED \<and> p_pid q = nextpid s \<and> p_parent q = p_parent (proc s p)"
  proof (cases r)
    case None
    then have "q = cleared q" using q by simp
    then have "unused_ok q" unfolding unused_ok_def using cleared_unused by metis
    then show ?thesis using q None by simp
  next
    case (Some p')
    then have "q = (proc s p)\<lparr>p_state := USED, p_pid := nextpid s, p_trapframe := p_trapframe q,
            p_pagetable := p_pagetable q,
            p_context := \<lparr>ctx_ra = forkret_pc s, ctx_sp = p_kstack (proc s p) + PGSIZE,
              ctx_s = (\<lambda>_. 0)\<rparr>\<rparr>" (is "q = ?q") using q by simp
    then have "p_parent q = p_parent ?q" by (rule arg_cong)
    then show ?thesis using q Some by simp
  qed
  then show ?thesis by (rule proc_inv_new_pid [OF assms(1) p np sp])
qed

lemma proc_inv_free:
  assumes inv: "proc_inv s" and p: "p < NPROC" "p_state (proc s p) \<noteq> RUNNING" and free: "freeproc p s = Inr s'"
  shows "proc_inv s'"
proof -
  let ?t = "s\<lparr>proc := (proc s)(p := cleared (proc s p))\<rparr>"
  note slot = proc_inv_slot [OF inv]
  have c: "p_state (cleared (proc s p)) = UNUSED" "unused_ok (cleared (proc s p))"
    by (simp_all add: cleared_def unused_ok_def)
  have slott: "slot_ok ?t (proc ?t x)" if "x < NPROC" for x
    using slot [OF that] c by (auto simp: slot_ok_def unused_ok_def)
  have "proc_inv ?t"
  proof (rule proc_invI)
    fix x y assume xy: "x < NPROC" "y < NPROC" "p_state (proc ?t x) \<noteq> UNUSED"
      "p_pid (proc ?t x) = p_pid (proc ?t y)"
    have "0 < p_pid (proc ?t x)" using slot_pid_pos [OF slott [OF xy(1)]] xy(3) by blast
    then have "p_state (proc ?t y) \<noteq> UNUSED" using slot_pid_pos [OF slott [OF xy(2)]] xy(4) by simp
    then show "x = y" using xy c proc_inv_inj [OF inv, of x y] by (auto split: if_splits)
  next
    show "cpu_proc ?t c' = Some x \<Longrightarrow> x < NPROC \<and> p_state (proc ?t x) = RUNNING" for c' x
      using proc_inv_cpu [OF inv, of c' x] p(2) by auto
    show "x < NPROC \<Longrightarrow> p_state (proc ?t x) = RUNNING \<Longrightarrow> \<exists>c. cpu_proc ?t c = Some x" for x
      using proc_inv_has_cpu [OF inv, of x] c(1) by (auto split: if_splits)
    show "cpu_proc ?t c = Some x \<Longrightarrow> cpu_proc ?t c' = Some x \<Longrightarrow> c = c'" for c c' x
      using proc_inv_cpu_inj [OF inv, of c x c'] by simp
  qed (use slott proc_inv_misc [OF inv] in auto)
  then show ?thesis using freeproc_table [OF free] by (rule proc_inv_same)
qed

text \<open>Entering and leaving the CPU.\<close>

lemma proc_inv_sched:
  assumes inv: "proc_inv s" and me: "myproc s = Some p"
    and f: "slot_ok s (f (proc s p))" "p_pid (f (proc s p)) = p_pid (proc s p)"
      "p_state (f (proc s p)) \<noteq> UNUSED" and sched: "sched (upd_proc p f s) = Inr s'"
  shows "proc_inv s'"
proof -
  have run: "p < NPROC" "p_state (proc s p) = RUNNING" using proc_inv_running [OF inv me] by auto
  have nr: "p_state (f (proc s p)) \<noteq> RUNNING"
    and s': "s' = (upd_proc p f s)\<lparr>cpu_proc := (cpu_proc s)(hart s := None)\<rparr>"
    using me sched by (auto simp: sched_def with_myproc_def split: if_splits)
  have pr: "proc s' = (proc s)(p := f (proc s p))" "cpu_proc s' = (cpu_proc s)(hart s := None)"
    "nextpid s' = nextpid s" "initproc s' = initproc s"
    by (simp_all add: s')
  have cpu: "cpu_proc s (hart s) = Some p" using me by (simp add: myproc_def cpuid_def)
  have slot: "slot_ok s' = slot_ok s" by (simp add: pr fun_eq_iff slot_ok_def)
  show ?thesis
  proof (rule proc_invI)
    show "slot_ok s' (proc s' x)" if "x < NPROC" for x
      using proc_inv_slot [OF inv that] f(1) unfolding slot by (simp add: pr)
    show "x = y" if "x < NPROC" "y < NPROC" "p_state (proc s' x) \<noteq> UNUSED"
      "p_pid (proc s' x) = p_pid (proc s' y)" for x y
    proof (rule proc_inv_inj [OF inv that(1,2)])
      show "p_state (proc s x) \<noteq> UNUSED" using that(3) run by (cases "x = p") (simp_all add: pr)
      show "p_pid (proc s x) = p_pid (proc s y)"
        using that(4) f(2) by (cases "x = p"; cases "y = p") (simp_all add: pr)
    qed
    show "\<exists>c. cpu_proc s' c = Some x" if lt: "x < NPROC" and st: "p_state (proc s' x) = RUNNING" for x
    proof -
      have x: "x \<noteq> p" "p_state (proc s x) = RUNNING" using st nr by (auto simp: pr split: if_splits)
      then obtain c where "cpu_proc s c = Some x" using proc_inv_has_cpu [OF inv lt] by blast
      then show ?thesis using x(1) cpu by (intro exI [of _ c]) (auto simp: pr)
    qed
    show "x < NPROC \<and> p_state (proc s' x) = RUNNING" if "cpu_proc s' c = Some x" for c x
      using that proc_inv_cpu [OF inv, of c x] proc_inv_cpu_inj [OF inv cpu, of c]
      by (auto simp: pr split: if_splits)
    show "cpu_proc s' c = Some x \<Longrightarrow> cpu_proc s' c' = Some x \<Longrightarrow> c = c'" for c c' x
      using proc_inv_cpu_inj [OF inv, of c x c'] by (auto simp: pr split: if_splits)
  qed (use proc_inv_misc [OF inv] in \<open>auto simp: pr\<close>)
qed

lemma proc_inv_visit:
  assumes inv: "proc_inv s" and p: "p < NPROC" and idle: "myproc s = None"
  shows "proc_inv (scheduler_visit p s)"
proof (cases "p_state (proc s p) = RUNNABLE")
  case True
  let ?s = "scheduler_visit p s"
  have v: "proc ?s = (proc s)(p := (proc s p)\<lparr>p_state := RUNNING\<rparr>)"
    "cpu_proc ?s = (cpu_proc s)(hart s := Some p)" "nextpid ?s = nextpid s" "initproc ?s = initproc s"
    using True by (simp_all add: scheduler_visit_def cpuid_def)
  have free: "cpu_proc s (hart s) = None" using idle by (simp add: myproc_def cpuid_def)
  have none: "cpu_proc s c \<noteq> Some p" for c using proc_inv_not_running [OF inv] True by simp
  have slot: "slot_ok ?s = slot_ok s" by (simp add: fun_eq_iff slot_ok_def v)
  show ?thesis
  proof (rule proc_invI)
    show "slot_ok ?s (proc ?s x)" if "x < NPROC" for x
      using proc_inv_slot [OF inv that] True unfolding slot by (auto simp: v slot_ok_def)
    show "x = y" if "x < NPROC" "y < NPROC" "p_state (proc ?s x) \<noteq> UNUSED"
      "p_pid (proc ?s x) = p_pid (proc ?s y)" for x y
    proof (rule proc_inv_inj [OF inv that(1,2)])
      show "p_state (proc s x) \<noteq> UNUSED" using that(3) True by (cases "x = p") (simp_all add: v)
      show "p_pid (proc s x) = p_pid (proc s y)"
        using that(4) by (cases "x = p"; cases "y = p") (simp_all add: v)
    qed
    show "\<exists>c. cpu_proc ?s c = Some x" if lt: "x < NPROC" and st: "p_state (proc ?s x) = RUNNING" for x
    proof (cases "x = p")
      case False
      then have "p_state (proc s x) = RUNNING" using st by (simp add: v)
      then obtain c where "cpu_proc s c = Some x" using proc_inv_has_cpu [OF inv lt] by blast
      then show ?thesis using free by (intro exI [of _ c]) (auto simp: v)
    qed (auto simp: v)
    show "x < NPROC \<and> p_state (proc ?s x) = RUNNING" if "cpu_proc ?s c = Some x" for c x
      using that proc_inv_cpu [OF inv, of c x] p by (auto simp: v split: if_splits)
    show "cpu_proc ?s c = Some x \<Longrightarrow> cpu_proc ?s c' = Some x \<Longrightarrow> c = c'" for c c' x
      using proc_inv_cpu_inj [OF inv, of c x c'] none by (auto simp: v split: if_splits)
  qed (use proc_inv_misc [OF inv] in \<open>auto simp: v\<close>)
qed (use inv in \<open>simp add: scheduler_visit_def\<close>)

end
