(* ===== verification/ProcSteps.thy ===== *)
theory ProcSteps
  imports Proc
begin

text \<open>
  The process table as a state machine: a step relation with one rule per operation of
  kernel/proc.c, the invariant of every reachable table, the transitions a process can
  make, and the hand-shakes between kill, wakeup, exit and wait.
\<close>

section \<open>Steps\<close>

text \<open>
  A step is one operation on some hart.  \<open>fork_publish\<close> is called with a slot that
  \<open>allocproc\<close> returned, \<open>scheduler_visit\<close> on a hart that runs no process.
\<close>

inductive kstep :: "'z pst \<Rightarrow> 'z pst \<Rightarrow> bool" where
  hart: "kstep s (s\<lparr>hart := h\<rparr>)"
| allocproc: "allocproc s = Inr (r, s') \<Longrightarrow> kstep s s'"
| freeproc: "p < NPROC \<Longrightarrow> p_state (proc s p) = USED \<Longrightarrow> freeproc p s = Inr s' \<Longrightarrow> kstep s s'"
| fork_publish: "myproc s = Some p \<Longrightarrow> np < NPROC \<Longrightarrow> p_state (proc s np) = USED \<Longrightarrow>
    kstep s (fork_publish p np s)"
| scheduler: "p < NPROC \<Longrightarrow> myproc s = None \<Longrightarrow> kstep s (scheduler_visit p s)"
| yield: "yield s = Inr s' \<Longrightarrow> kstep s s'"
| sleep: "sleep c s = (Inl (Asleep c' s') :: 'z pst stop + unit) \<Longrightarrow> kstep s s'"
| sleep_tidy: "myproc s = Some p \<Longrightarrow> kstep s (sleep_tidy p s)"
| wakeup: "kstep s (wakeup c s)"
| kill: "kill pid s = (r, s') \<Longrightarrow> kstep s s'"
| setkilled: "p < NPROC \<Longrightarrow> kstep s (setkilled p s)"
| exit: "exit_zombie status s = Inr s' \<Longrightarrow> kstep s s'"
| wait: "wait addr s = Inr (r, s') \<Longrightarrow> kstep s s'"
| wait_sleep: "wait addr s = Inl (Asleep c s') \<Longrightarrow> kstep s s'"
| growproc: "growproc n s = Inr (r, s') \<Longrightarrow> kstep s s'"

inductive_cases kstepE: "kstep s s'"

lemma sleep_sched:
  assumes "sleep c s = Inl (Asleep c' s')"
  obtains p where "myproc s = Some p"
    "sched (upd_proc p (\<lambda>r. r\<lparr>p_chan := Some c, p_state := SLEEPING\<rparr>) s) = Inr s'"
proof -
  obtain p where p: "myproc s = Some p"
    using assms by (auto simp: sleep_def with_myproc_def split: option.splits)
  then have "sched (upd_proc p (\<lambda>r. r\<lparr>p_chan := Some c, p_state := SLEEPING\<rparr>) s) = Inr s'"
    using assms by (auto simp: sleep_def with_myproc_def sched_def)
  with p show thesis by (rule that)
qed



lemma fold_reparent_frame:
  "cpu_proc (fold (reparent_one p) xs s) = cpu_proc s \<and> hart (fold (reparent_one p) xs s) = hart s \<and>
   initproc (fold (reparent_one p) xs s) = initproc s \<and> nextpid (fold (reparent_one p) xs s) = nextpid s"
  by (induction xs arbitrary: s) (auto simp: reparent_one_def)

lemma reparent_frame [simp]:
  "cpu_proc (reparent p s) = cpu_proc s" "hart (reparent p s) = hart s"
  "initproc (reparent p s) = initproc s" "myproc (reparent p s) = myproc s"
  using fold_reparent_frame [of p "[0..<NPROC]" s]
  by (simp_all add: reparent_def myproc_def cpuid_def del: upt_rec_numeral)



lemma freeproc_awake: "awake (freeproc p s)"
  by (auto simp: freeproc_def proc_freepagetable_def Let_def)

text \<open>The outcomes of \<open>wait\<close>.\<close>

lemma wait_cases:
  assumes "myproc s = Some p"
  obtains
    (reap) pp t r where "first_index (\<lambda>pp. p_parent (proc s pp) = Some p \<and> p_state (proc s pp) = ZOMBIE) NPROC = Some pp"
      "pp < NPROC" "p_parent (proc s pp) = Some p" "p_state (proc s pp) = ZOMBIE" "same_procs s t"
      "wait addr s = (if r < (0 :: int) then Inr (- 1, t)
         else bindE (freeproc pp t) (\<lambda>s'. Inr (p_pid (proc s pp), s')))" "addr = 0 \<longrightarrow> t = s \<and> r = 0"
  | (none) "\<And>pp. pp < NPROC \<Longrightarrow> p_parent (proc s pp) = Some p \<Longrightarrow> p_state (proc s pp) \<noteq> ZOMBIE"
      "\<not> (\<exists>pp<NPROC. p_parent (proc s pp) = Some p) \<or> killed p s \<noteq> 0" "wait addr s = Inr (- 1, s)"
  | (block) "\<And>pp. pp < NPROC \<Longrightarrow> p_parent (proc s pp) = Some p \<Longrightarrow> p_state (proc s pp) \<noteq> ZOMBIE"
      "\<exists>pp<NPROC. p_parent (proc s pp) = Some p" "killed p s = 0" "wait addr s = sleep (ChanProc p) s"
proof (cases "first_index (\<lambda>pp. p_parent (proc s pp) = Some p \<and> p_state (proc s pp) = ZOMBIE) NPROC")
  case None
  then have nz: "\<And>pp. pp < NPROC \<Longrightarrow> p_parent (proc s pp) = Some p \<Longrightarrow> p_state (proc s pp) \<noteq> ZOMBIE"
    by auto
  show thesis
  proof (cases "\<not> (\<exists>pp<NPROC. p_parent (proc s pp) = Some p) \<or> killed p s \<noteq> 0")
    case True
    then have "wait addr s = Inr (- 1, s)" unfolding wait_def with_myproc_def assms option.case None by simp
    then show thesis using none nz True by blast
  next
    case False
    then have "wait addr s = sleep (ChanProc p) s"
      unfolding wait_def with_myproc_def assms option.case None by auto
    then show thesis using block nz False by blast
  qed
next
  case (Some pp)
  then have pp: "pp < NPROC" "p_parent (proc s pp) = Some p" "p_state (proc s pp) = ZOMBIE"
    by (auto dest: first_index_SomeD)
  define rt where "rt = (if addr \<noteq> 0 then copyout (p_pagetable (proc s p)) addr
      (le_encode 4 (unat (word_of_int (p_xstate (proc s pp)) :: u32))) s else (0, s))"
  obtain r t where rt: "rt = (r, t)" by fastforce
  have "same_procs s t"
    using rt by (auto simp: rt_def split: if_splits dest!: copyout_frame km_frame_same_procs)
  moreover have "wait addr s = (if r < 0 then Inr (- 1, t)
      else bindE (freeproc pp t) (\<lambda>s'. Inr (p_pid (proc s pp), s')))"
    unfolding wait_def with_myproc_def assms option.case Some
    unfolding rt_def [symmetric] rt by (simp add: Let_def)
  moreover have "addr = 0 \<longrightarrow> t = s \<and> r = 0" using rt by (auto simp: rt_def)
  ultimately show thesis using reap Some pp by blast
qed





section \<open>Reachable process tables\<close>





section \<open>The life cycle of a process\<close>

definition legal :: "procstate \<Rightarrow> procstate \<Rightarrow> bool" where
  "legal a b \<longleftrightarrow> a = b \<or> (a, b) \<in> {(UNUSED, USED), (USED, UNUSED), (USED, RUNNABLE),
     (RUNNABLE, RUNNING), (RUNNING, RUNNABLE), (RUNNING, SLEEPING), (SLEEPING, RUNNABLE),
     (RUNNING, ZOMBIE), (ZOMBIE, UNUSED)}"

lemma legal_refl [simp]: "legal a a"
  by (simp add: legal_def)

definition woken_state :: "procstate \<Rightarrow> procstate \<Rightarrow> bool" where
  "woken_state a b \<longleftrightarrow> a = b \<or> a = SLEEPING \<and> b = RUNNABLE"

lemma woken_state_trans: "woken_state a b \<Longrightarrow> woken_state b c \<Longrightarrow> woken_state a c"
  by (auto simp: woken_state_def)


lemma fold_reparent_table:
  "woken_state (p_state (proc s q)) (p_state (proc (fold (reparent_one p) xs s) q)) \<and>
   p_parent (proc (fold (reparent_one p) xs s) q) =
     (if q \<in> set xs \<and> p_parent (proc s q) = Some p then initproc s else p_parent (proc s q)) \<and>
   p_chan (proc (fold (reparent_one p) xs s) q) = p_chan (proc s q) \<and>
   p_pid (proc (fold (reparent_one p) xs s) q) = p_pid (proc s q)"
proof (induction xs arbitrary: s)
  case Nil
  then show ?case by (simp add: woken_state_def)
next
  case (Cons x xs)
  let ?s = "reparent_one p x s"
  have one: "woken_state (p_state (proc s q)) (p_state (proc ?s q))" "initproc ?s = initproc s"
    "p_parent (proc ?s q) = (if q = x \<and> p_parent (proc s q) = Some p then initproc s else p_parent (proc s q))"
    "p_chan (proc ?s q) = p_chan (proc s q)" "p_pid (proc ?s q) = p_pid (proc s q)"
    by (auto simp: reparent_one_def wakeup_table woken_def woken_state_def)
  show ?case
    using Cons.IH [of ?s] one woken_state_trans [OF one(1)] by auto
qed

lemma reparent_table:
  "woken_state (p_state (proc s q)) (p_state (proc (reparent p s) q))"
  "q < NPROC \<Longrightarrow> p_parent (proc (reparent p s) q) =
     (if p_parent (proc s q) = Some p then initproc s else p_parent (proc s q))"
  "p_chan (proc (reparent p s) q) = p_chan (proc s q)" "p_pid (proc (reparent p s) q) = p_pid (proc s q)"
  using fold_reparent_table [of s q p "[0..<NPROC]"]
  by (simp_all add: reparent_def del: upt_rec_numeral)

lemma sched_table:
  assumes "myproc s = Some p" and "sched (upd_proc p f s) = Inr s'"
  shows "proc s' = (proc s)(p := f (proc s p))" "cpu_proc s' = (cpu_proc s)(hart s := None)"
    "hart s' = hart s"
  using assms by (auto simp: sched_def with_myproc_def split: if_splits)

lemma exit_table:
  assumes "exit_zombie status s = Inr s'"
  obtains p t where "myproc s = Some p"
    "t = wakeup (chan_of_proc (p_parent (proc (reparent p s) p))) (reparent p s)"
    "proc s' = (proc t)(p := (proc t p)\<lparr>p_xstate := status, p_state := ZOMBIE\<rparr>)"
    "cpu_proc s' = (cpu_proc s)(hart s := None)"
proof -
  obtain p where p: "myproc s = Some p"
    using assms by (auto simp: exit_zombie_def with_myproc_def split: option.splits)
  define t where "t = wakeup (chan_of_proc (p_parent (proc (reparent p s) p))) (reparent p s)"
  have "myproc t = Some p" using p by (simp add: t_def)
  moreover have "sched (upd_proc p (\<lambda>r. r\<lparr>p_xstate := status, p_state := ZOMBIE\<rparr>) t) = Inr s'"
    using assms p by (simp add: exit_zombie_def with_myproc_def t_def Let_def)
  ultimately show thesis using that [OF p t_def] sched_table [of t p _ s'] by (simp add: t_def)
qed








section \<open>Properties\<close>

text \<open>A concrete table for the examples: slot 1 runs on hart 0, its parent is slot 0.\<close>

definition proc0 :: proc where
  "proc0 = \<lparr>p_state = UNUSED, p_chan = None, p_killed = 0, p_xstate = 0, p_pid = 0, p_parent = None,
     p_kstack = 0, p_sz = 0, p_pagetable = 0, p_trapframe = 0,
     p_context = \<lparr>ctx_ra = 0, ctx_sp = 0, ctx_s = (\<lambda>_. 0)\<rparr>, p_ofile = (\<lambda>_. None), p_cwd = None,
     p_name = (\<lambda>_. 0)\<rparr>"

definition pst0 :: "unit pst" where
  "pst0 = \<lparr>mem = (\<lambda>_. 0), freelist = 0, kend = KERNBASE, kernel_pagetable = 0, satp = 0,
     proc = (\<lambda>_. proc0), nextpid = 1, initproc = None, cpu_proc = (\<lambda>_. None), hart = 0, ticks = 0,
     topp = \<lparr>uptime = 0, total_process = 0, running_process = 0, sleeping_process = 0\<rparr>,
     trampoline = 0, forkret_pc = 0, cons_out = []\<rparr>"

definition pst1 :: "unit pst" where
  "pst1 = pst0\<lparr>proc := (\<lambda>_. proc0)
       (0 := proc0\<lparr>p_state := SLEEPING, p_chan := Some (ChanProc 0), p_pid := 1\<rparr>,
        1 := proc0\<lparr>p_state := RUNNING, p_pid := 2, p_parent := Some 0\<rparr>,
        2 := proc0\<lparr>p_state := RUNNABLE, p_pid := 3, p_parent := Some 1\<rparr>),
     nextpid := 4, initproc := Some 0, cpu_proc := (\<lambda>_. None)(0 := Some 1)\<rparr>"


lemma pst1_inv: "proc_inv pst1"
  by (rule proc_invI)
     (auto simp: pst1_def pst0_def proc0_def slot_ok_def unused_ok_def split: if_splits)





text \<open>
  C12: \<open>exit\<close> leaves a zombie with the exit status, gives up the hart, hands the children to
  the init process and makes the parent runnable if it sleeps in \<open>wait\<close>: no wakeup is lost.
\<close>

theorem exit_wakes_parent:
  assumes "proc_inv s" and "myproc s = Some p" and "p_parent (proc s p) = Some q" and "q \<noteq> p"
    and "q < NPROC" and "exit_zombie status s = Inr s'"
  shows "p_state (proc s' p) = ZOMBIE \<and> p_xstate (proc s' p) = status \<and>
    p_parent (proc s' p) = Some q \<and> cpu_proc s' (hart s) = None \<and>
    (p_state (proc s q) = SLEEPING \<and> p_chan (proc s q) = Some (ChanProc q) \<longrightarrow>
      p_state (proc s' q) = RUNNABLE) \<and>
    (\<forall>c<NPROC. p_parent (proc s c) = Some p \<longrightarrow> p_parent (proc s' c) = initproc s)"
proof -
  from assms(6) obtain p' t where p': "myproc s = Some p'"
    and t: "t = wakeup (chan_of_proc (p_parent (proc (reparent p' s) p'))) (reparent p' s)"
    and s': "proc s' = (proc t)(p' := (proc t p')\<lparr>p_xstate := status, p_state := ZOMBIE\<rparr>)"
      "cpu_proc s' = (cpu_proc s)(hart s := None)"
    by (rule exit_table)
  have eq: "p' = p" using p' assms(2) by simp
  have run: "p < NPROC" using proc_inv_running [OF assms(1,2)] by simp
  have par: "p_parent (proc (reparent p s) p) = Some q"
    using reparent_table(2) [OF run, of p s] assms(3,4) by simp
  have "p_state (proc t q) = RUNNABLE"
    if "p_state (proc s q) = SLEEPING" "p_chan (proc s q) = Some (ChanProc q)"
    using reparent_table(1) [of s q p] reparent_table(3) [of p s q] that assms(2,4,5)
    by (auto simp: t eq par wakeup_table woken_def chan_of_proc_def woken_state_def)
  moreover have "p_parent (proc t c) = p_parent (proc (reparent p s) c)" for c
    by (simp add: t eq wakeup_table woken_def)
  ultimately show ?thesis
    using s' eq par assms(3,4) reparent_table(2) [of _ p s] by simp
qed

theorem exit_wakes_parent_witness:
  "\<exists>s'. exit_zombie 7 pst1 = Inr s' \<and> p_state (proc s' 1) = ZOMBIE \<and> p_state (proc s' 0) = RUNNABLE \<and>
     p_parent (proc s' 2) = Some 0"
proof -
  have me: "myproc pst1 = Some 1" by (simp add: myproc_def cpuid_def pst1_def pst0_def)
  obtain s' where s': "exit_zombie 7 pst1 = Inr s'"
    using me by (simp add: exit_zombie_def with_myproc_def sched_def Let_def)
  show ?thesis
    using exit_wakes_parent [OF pst1_inv me _ _ _ s', of 0] s'
    by (simp add: pst1_def pst0_def proc0_def)
qed

text \<open>
  C13: \<open>wait\<close> sleeps only when the caller has children, none of them a zombie, and has not
  been killed, and it sleeps on the channel \<open>exit\<close> wakes.  When it returns a pid, that is
  the pid of a zombie child, whose slot alone has been freed.
\<close>

theorem wait_spec:
  assumes "proc_inv s" and "myproc s = Some p"
  shows "(wait addr s = Inl (Asleep c s') \<longrightarrow>
      c = ChanProc p \<and> p_state (proc s' p) = SLEEPING \<and> p_chan (proc s' p) = Some c \<and> killed p s = 0 \<and>
      (\<exists>pp<NPROC. p_parent (proc s pp) = Some p) \<and>
      (\<forall>pp<NPROC. p_parent (proc s pp) = Some p \<longrightarrow> p_state (proc s pp) \<noteq> ZOMBIE)) \<and>
    (wait addr s = Inr (r, s') \<and> r \<noteq> - 1 \<longrightarrow>
      (\<exists>pp<NPROC. p_parent (proc s pp) = Some p \<and> p_state (proc s pp) = ZOMBIE \<and>
        r = p_pid (proc s pp) \<and> proc s' = (proc s)(pp := cleared (proc s pp))))"
  using assms(2)
proof (cases rule: wait_cases [of s p addr])
  case (reap pp t rc)
  then have eq: "proc t = proc s" by (simp add: same_procs_def)
  have "wait addr s \<noteq> Inl (Asleep c s')"
    using reap(6) freeproc_awake [of pp t] by (auto simp: awake_def bindE_eq_Inl)
  moreover have "proc s' = (proc s)(pp := cleared (proc s pp)) \<and> r = p_pid (proc s pp)"
    if "wait addr s = Inr (r, s')" "r \<noteq> - 1"
  proof -
    have "freeproc pp t = Inr s'" "r = p_pid (proc s pp)"
      using that reap(6) by (auto split: if_splits)
    then show ?thesis using freeproc_table [of pp t s'] eq by (simp add: same_procs_def)
  qed
  ultimately show ?thesis using reap(2-4) by blast
next
  case none
  then show ?thesis by auto
next
  case block
  have ni: "wait addr s \<noteq> Inr (r, s')"
    unfolding block(4) by (auto simp: sleep_def with_myproc_def split: option.splits)
  have "c = ChanProc p \<and> p_state (proc s' p) = SLEEPING \<and> p_chan (proc s' p) = Some c"
    if w: "wait addr s = Inl (Asleep c s')"
  proof -
    have c: "c = ChanProc p" using w assms(2)
      unfolding block(4) by (auto simp: sleep_def with_myproc_def sched_def bindE_eq_Inl split: if_splits)
    obtain q where "myproc s = Some q"
      "sched (upd_proc q (\<lambda>r. r\<lparr>p_chan := Some (ChanProc p), p_state := SLEEPING\<rparr>) s) = Inr s'"
      using w unfolding block(4) by (rule sleep_sched)
    then show ?thesis using sched_table(1) [of s q _ s'] assms(2) c by simp
  qed
  then show ?thesis using block(1-3) ni by blast
qed

definition pst2 :: "unit pst" where
  "pst2 = pst0\<lparr>proc := (\<lambda>_. proc0)
       (0 := proc0\<lparr>p_state := RUNNING, p_pid := 1\<rparr>,
        1 := proc0\<lparr>p_state := ZOMBIE, p_pid := 2, p_parent := Some 0\<rparr>),
     nextpid := 3, initproc := Some 0, cpu_proc := (\<lambda>_. None)(0 := Some 0)\<rparr>"

lemma pst2_inv: "proc_inv pst2"
  by (rule proc_invI)
     (auto simp: pst2_def pst0_def proc0_def slot_ok_def unused_ok_def split: if_splits)

theorem wait_spec_witness:
  "\<exists>s'. wait 0 pst2 = Inr (2, s') \<and> p_state (proc s' 1) = UNUSED \<and> p_state (proc s' 0) = RUNNING"
proof -
  have me: "myproc pst2 = Some 0" by (simp add: myproc_def cpuid_def pst2_def pst0_def)
  have "first_index (\<lambda>pp. p_parent (proc pst2 pp) = Some 0 \<and> p_state (proc pst2 pp) = ZOMBIE) NPROC = Some 1"
    by (simp add: first_index_def pst2_def pst0_def proc0_def upt_rec)
  then obtain s' where s': "wait 0 pst2 = Inr (2, s')"
    using me by (auto simp: wait_def with_myproc_def Let_def freeproc_def) (simp_all add: pst2_def pst0_def proc0_def)
  then show ?thesis
    using wait_spec [OF pst2_inv me, of 0 undefined s' 2]
    by (auto simp: pst2_def pst0_def proc0_def cleared_def split: if_splits)
qed

text \<open>
  C14: \<open>wakeup\<close> makes runnable exactly the processes that sleep on the channel, other than
  the caller, and changes nothing else in the table.
\<close>

theorem wakeup_exact:
  "proc (wakeup c s) p =
     (if p < NPROC \<and> Some p \<noteq> myproc s \<and> p_state (proc s p) = SLEEPING \<and> p_chan (proc s p) = c
      then (proc s p)\<lparr>p_state := RUNNABLE\<rparr> else proc s p)"
  by (simp add: wakeup_table woken_def)



end
