(* ===== verification/Sleeplock.thy ===== *)
theory Sleeplock
  imports ProcSteps
begin

text \<open>
  kernel/sleeplock.c.  A sleep lock is embedded in a buffer or an inode; the pointer
  \<open>lk\<close> of the source is the pair of a read function and a write function for that part
  of the state, together with the channel its address stands for.  Waiting for the lock
  is the outcome Asleep: the loop of \<open>acquiresleep\<close> tests the lock again on wakeup.
\<close>

record sleeplock =
  sl_locked :: bool
  sl_pid :: int

abbreviation unlocked :: sleeplock where "unlocked \<equiv> \<lparr>sl_locked = False, sl_pid = 0\<rparr>"

definition initsleeplock :: sleeplock where
  "initsleeplock = \<lparr>sl_locked = False, sl_pid = 0\<rparr>"

definition acquiresleep :: "chan \<Rightarrow> ('z pst \<Rightarrow> sleeplock) \<Rightarrow> (sleeplock \<Rightarrow> 'z pst \<Rightarrow> 'z pst) \<Rightarrow>
    'z pst \<Rightarrow> 'z pst stop + 'z pst" where
  "acquiresleep c get put s = with_myproc s (\<lambda>p.
     if sl_locked (get s) then sleep c s
     else Inr (put \<lparr>sl_locked = True, sl_pid = p_pid (proc s p)\<rparr> s))"

definition releasesleep :: "chan \<Rightarrow> (sleeplock \<Rightarrow> 'z pst \<Rightarrow> 'z pst) \<Rightarrow> 'z pst \<Rightarrow> 'z pst" where
  "releasesleep c put s = wakeup (Some c) (put \<lparr>sl_locked = False, sl_pid = 0\<rparr> s)"

definition holdingsleep :: "('z pst \<Rightarrow> sleeplock) \<Rightarrow> 'z pst \<Rightarrow> bool" where
  "holdingsleep get s = (case myproc s of
     None \<Rightarrow> False
   | Some p \<Rightarrow> sl_locked (get s) \<and> sl_pid (get s) = p_pid (proc s p))"

section \<open>The contract of an embedded lock\<close>

text \<open>
  The laws of the access functions: what is written is read back, and the lock is
  independent of the process table.
\<close>

locale sleep_lock =
  fixes get :: "'z pst \<Rightarrow> sleeplock"
    and put :: "sleeplock \<Rightarrow> 'z pst \<Rightarrow> 'z pst"
    and ch :: chan
  assumes get_put: "get (put l s) = l"
    and put_proc: "proc (put l s) = proc s"
    and put_cpu: "myproc (put l s) = myproc s"
    and get_wakeup: "get (wakeup c s) = get s"
begin

lemma acquire_free:
  assumes "myproc s = Some p" and "\<not> sl_locked (get s)"
  shows "\<exists>s'. acquiresleep ch get put s = Inr s' \<and> holdingsleep get s' \<and> proc s' = proc s"
  using assms by (simp add: acquiresleep_def with_myproc_def holdingsleep_def get_put put_proc put_cpu)

lemma acquire_held:
  assumes "myproc s = Some p" and "sl_locked (get s)" and "p_state (proc s p) = RUNNING"
  shows "\<exists>s'. acquiresleep ch get put s = Inl (Asleep ch s') \<and> p_state (proc s' p) = SLEEPING \<and>
    p_chan (proc s' p) = Some ch"
  using assms by (simp add: acquiresleep_def with_myproc_def sleep_def sched_def)

lemma acquired_exclusive:
  assumes "acquiresleep ch get put s = Inr s'" and "acquiresleep ch get put s' = Inr s''"
  shows False
  using assms by (auto simp: acquiresleep_def with_myproc_def get_put put_cpu sleep_def
      split: option.splits if_splits)

lemma release_wakes:
  assumes "q < NPROC" and "p_state (proc s q) = SLEEPING" and "p_chan (proc s q) = Some ch"
    and "myproc s \<noteq> Some q"
  shows "p_state (proc (releasesleep ch put s) q) = RUNNABLE \<and> \<not> sl_locked (get (releasesleep ch put s))"
  using assms by (simp add: releasesleep_def wakeup_table woken_def put_proc put_cpu get_wakeup get_put)

lemma released_acquirable:
  assumes "myproc s = Some p"
  shows "\<exists>s'. acquiresleep ch get put (releasesleep ch put s) = Inr s' \<and> holdingsleep get s'"
  using assms by (simp add: acquiresleep_def with_myproc_def holdingsleep_def releasesleep_def
      get_put put_proc put_cpu get_wakeup)

end

end
