(* ===== verification/Blocks.thy ===== *)
theory Blocks
  imports Strings
begin

text \<open>
  Disk blocks and the fields the file system keeps in them.  A block is its BSIZE bytes;
  integers are stored little-endian at byte offsets, as the C structures lay them out.
\<close>

type_synonym block = "nat \<Rightarrow> u8"

abbreviation (input) BSIZE :: nat where "BSIZE \<equiv> 1024"

definition load_bytes :: "nat \<Rightarrow> block \<Rightarrow> nat \<Rightarrow> nat" where
  "load_bytes k b off = le_decode (map b [off..<off + k])"

definition store_bytes :: "block \<Rightarrow> nat \<Rightarrow> u8 list \<Rightarrow> block" where
  "store_bytes b off bs = (\<lambda>i. if off \<le> i \<and> i < off + length bs then bs ! (i - off) else b i)"

definition load16 :: "block \<Rightarrow> nat \<Rightarrow> u16" where
  "load16 b off = word_of_nat (load_bytes 2 b off)"

definition load32 :: "block \<Rightarrow> nat \<Rightarrow> u32" where
  "load32 b off = word_of_nat (load_bytes 4 b off)"

definition store16 :: "block \<Rightarrow> nat \<Rightarrow> u16 \<Rightarrow> block" where
  "store16 b off v = store_bytes b off (le_encode 2 (unat v))"

definition store32 :: "block \<Rightarrow> nat \<Rightarrow> u32 \<Rightarrow> block" where
  "store32 b off v = store_bytes b off (le_encode 4 (unat v))"

lemma store_bytes_same: "map (store_bytes b off bs) [off..<off + length bs] = bs"
  by (rule nth_equalityI) (simp_all add: store_bytes_def)

lemma store_bytes_other:
  "i < off \<or> off + length bs \<le> i \<Longrightarrow> store_bytes b off bs i = b i"
  by (auto simp: store_bytes_def)

lemma load_store_bytes: "load_bytes k (store_bytes b off (le_encode k x)) off = x mod 256 ^ k"
  using store_bytes_same [of b off "le_encode k x"] by (simp add: load_bytes_def le_decode_encode)

lemma load_bytes_cong:
  assumes "\<And>i. off \<le> i \<Longrightarrow> i < off + k \<Longrightarrow> b i = b' i"
  shows "load_bytes k b off = load_bytes k b' off"
  unfolding load_bytes_def by (rule arg_cong [where f = le_decode], rule map_cong) (use assms in auto)

lemma load_store_bytes_other:
  "off' + k \<le> off \<or> off + length bs \<le> off' \<Longrightarrow> load_bytes k (store_bytes b off bs) off' = load_bytes k b off'"
  by (rule load_bytes_cong) (auto simp: store_bytes_def)

lemma load32_store32 [simp]: "load32 (store32 b off v) off = v"
  using unsigned_less [of v, where ?'a = nat]
  by (simp add: load32_def store32_def load_store_bytes)

lemma load16_store16 [simp]: "load16 (store16 b off v) off = v"
  using unsigned_less [of v, where ?'a = nat]
  by (simp add: load16_def store16_def load_store_bytes)

lemma load32_store32_other: "off' + 4 \<le> off \<or> off + 4 \<le> off' \<Longrightarrow> load32 (store32 b off v) off' = load32 b off'"
  by (simp add: load32_def store32_def load_store_bytes_other)

lemma load16_store16_other: "off' + 2 \<le> off \<or> off + 2 \<le> off' \<Longrightarrow> load16 (store16 b off v) off' = load16 b off'"
  by (simp add: load16_def store16_def load_store_bytes_other)

lemma load32_cong: "(\<And>i. off \<le> i \<Longrightarrow> i < off + 4 \<Longrightarrow> b i = b' i) \<Longrightarrow> load32 b off = load32 b' off"
  unfolding load32_def by (rule arg_cong [where f = word_of_nat], rule load_bytes_cong)

end
