(* ===== verification/Dllist.thy ===== *)
theory Dllist
  imports Prelude
begin

text \<open>
  Doubly linked circular lists through \<open>next\<close> and \<open>prev\<close> links, as the buffer cache keeps
  them: segments of the list as a predicate on the two link functions, unlinking,
  insertion at the front, and bounded traversal.
\<close>

fun dseg :: "(nat \<Rightarrow> nat) \<Rightarrow> (nat \<Rightarrow> nat) \<Rightarrow> nat \<Rightarrow> nat list \<Rightarrow> nat \<Rightarrow> bool" where
  "dseg nx pv a [] z \<longleftrightarrow> nx a = z \<and> pv z = a"
| "dseg nx pv a (b # bs) z \<longleftrightarrow> nx a = b \<and> pv b = a \<and> dseg nx pv b bs z"

text \<open>Traversal of a list with head \<open>h\<close>; None when the links do not return to it in time.\<close>

fun chain_find :: "nat \<Rightarrow> (nat \<Rightarrow> nat) \<Rightarrow> (nat \<Rightarrow> bool) \<Rightarrow> nat \<Rightarrow> nat \<Rightarrow> nat option option" where
  "chain_find 0 nx P h b = None"
| "chain_find (Suc n) nx P h b =
     (if b = h then Some None else if P b then Some (Some b) else chain_find n nx P h (nx b))"

lemma dseg_append: "dseg nx pv a (xs @ b # ys) z \<longleftrightarrow> dseg nx pv a xs b \<and> dseg nx pv b ys z"
  by (induction xs arbitrary: a) auto

lemma dseg_rev: "dseg nx pv a xs z \<longleftrightarrow> dseg pv nx z (rev xs) a"
proof (induction xs arbitrary: a)
  case Nil
  then show ?case by auto
next
  case (Cons x xs)
  have "dseg pv nx z (rev xs @ [x]) a \<longleftrightarrow> dseg pv nx z (rev xs) x \<and> dseg pv nx x [] a"
    by (rule dseg_append)
  then show ?case using Cons.IH [of x] by auto
qed

lemma dseg_first: "dseg nx pv a xs z \<Longrightarrow> nx a = hd (xs @ [z])"
  by (cases xs) auto

lemma dseg_last: "dseg nx pv a xs z \<Longrightarrow> pv z = last (a # xs)"
  using dseg_first [of pv nx z "rev xs" a] dseg_rev [of nx pv a xs z]
  by (cases xs rule: rev_cases) auto

lemma dseg_cong:
  assumes "dseg nx pv a xs z"
    and "\<And>b. b \<in> insert a (set xs) \<Longrightarrow> nx' b = nx b" and "\<And>b. b \<in> insert z (set xs) \<Longrightarrow> pv' b = pv b"
  shows "dseg nx' pv' a xs z"
  using assms by (induction xs arbitrary: a) auto

lemma dseg_unlink:
  assumes "dseg nx pv a (xs @ b # ys) z" and "distinct (xs @ b # ys)"
    and "a \<notin> set (xs @ b # ys)" and "z \<notin> set (xs @ b # ys)"
  shows "dseg (nx(pv b := nx b)) (pv(nx b := pv b)) a (xs @ ys) z"
  using assms
proof (induction xs arbitrary: a)
  case Nil
  show ?case
  proof (cases ys)
    case Nil
    then show ?thesis using Nil.prems by simp
  next
    case (Cons c cs)
    have "dseg (nx(pv b := nx b)) (pv(nx b := pv b)) c cs z"
      by (rule dseg_cong [of nx pv]) (use Nil.prems Cons in auto)
    moreover have "(nx(pv b := nx b)) a = c" "(pv(nx b := pv b)) c = a" using Nil.prems Cons by auto
    ultimately show ?thesis unfolding Cons append.simps dseg.simps by blast
  qed
next
  case (Cons x xs)
  have seg: "dseg nx pv x (xs @ b # ys) z" using Cons.prems(1) by simp
  then have "dseg nx pv x xs b" "dseg nx pv b ys z" by (simp_all only: dseg_append)
  then have "pv b = last (x # xs)" "nx b = hd (ys @ [z])"
    using dseg_last dseg_first by blast+
  moreover have "last (x # xs) \<in> set (x # xs)" by (rule last_in_set) simp
  moreover have "hd (ys @ [z]) \<in> insert z (set ys)" by (cases ys) auto
  ultimately have "pv b \<noteq> a" "nx b \<noteq> x" using Cons.prems by auto
  moreover have "dseg (nx(pv b := nx b)) (pv(nx b := pv b)) x (xs @ ys) z"
    using Cons.prems by (intro Cons.IH seg) auto
  ultimately show ?case using Cons.prems(1) unfolding append.simps dseg.simps by simp
qed

lemma dseg_push:
  assumes "dseg nx pv a xs z" and "b \<notin> set xs" and "b \<noteq> a" and "b \<noteq> z"
    and "a \<notin> set xs" and "distinct xs" and "z \<notin> set xs"
  shows "dseg (nx(b := nx a, a := b)) (pv(b := a, nx a := b)) a (b # xs) z"
proof (cases xs)
  case Nil
  then show ?thesis using assms by auto
next
  case (Cons c cs)
  have "dseg (nx(b := nx a, a := b)) (pv(b := a, nx a := b)) c cs z"
    by (rule dseg_cong [of nx pv]) (use assms Cons in auto)
  moreover have "(nx(b := nx a, a := b)) a = b" "(pv(b := a, nx a := b)) b = a"
    "(nx(b := nx a, a := b)) b = c" "(pv(b := a, nx a := b)) c = b"
    using assms Cons by auto
  ultimately show ?thesis unfolding Cons dseg.simps by blast
qed

lemma chain_find_dseg:
  assumes "dseg nx pv a xs h" and "h \<notin> set xs" and "length xs < n"
  shows "chain_find n nx P h (nx a) = Some (List.find P xs)"
  using assms
proof (induction xs arbitrary: a n)
  case Nil
  then show ?case by (cases n) auto
next
  case (Cons x xs)
  then show ?case by (cases n) auto
qed

lemma chain_find_dseg_back:
  assumes "dseg nx pv h xs a" and "h \<notin> set xs" and "length xs < n"
  shows "chain_find n pv P h (pv a) = Some (List.find P (rev xs))"
  using chain_find_dseg [of pv nx a "rev xs" h n P] assms dseg_rev [of nx pv h xs a] by simp

end
