(* ===== verification/Bio.thy ===== *)
theory Bio
  imports Sleeplock Blocks Dllist
begin

text \<open>
  kernel/bio.c, the buffer cache.  Buffers are named by their index in \<open>bcache.buf\<close>; index
  NBUF is \<open>bcache.head\<close>.  The recency list is kept in the \<open>prev\<close> and \<open>next\<close> links as in the
  source.  The disk is a map from block numbers to blocks; every write is also recorded
  in order, so that later theories can cut the sequence at any point.
\<close>

section \<open>State and operations\<close>

record buf =
  b_valid :: bool
  b_disk :: bool
  b_dev :: u32
  b_blockno :: u32
  b_lock :: sleeplock
  b_refcnt :: u32
  b_prev :: nat
  b_next :: nat
  b_data :: block

record bio_state = proc_state +
  buf :: "nat \<Rightarrow> buf"
  disk :: "u32 \<Rightarrow> block"
  dwrites :: "(u32 \<times> block) list"

type_synonym 'z bst = "'z bio_state_scheme"

abbreviation (input) HEAD :: nat where "HEAD \<equiv> NBUF"

definition upd_buf :: "nat \<Rightarrow> (buf \<Rightarrow> buf) \<Rightarrow> 'z bst \<Rightarrow> 'z bst" where
  "upd_buf i f s = s\<lparr>buf := (buf s)(i := f (buf s i))\<rparr>"

text \<open>Linking b in front of the list: the last four assignments of \<open>brelse\<close>.\<close>

definition link_front :: "nat \<Rightarrow> 'z bst \<Rightarrow> 'z bst" where
  "link_front b s =
     (let s = upd_buf b (\<lambda>r. r\<lparr>b_next := b_next (buf s HEAD)\<rparr>) s;
          s = upd_buf b (\<lambda>r. r\<lparr>b_prev := HEAD\<rparr>) s;
          s = upd_buf (b_next (buf s HEAD)) (\<lambda>r. r\<lparr>b_prev := b\<rparr>) s
      in upd_buf HEAD (\<lambda>r. r\<lparr>b_next := b\<rparr>) s)"

definition binit :: "'z bst \<Rightarrow> 'z bst" where
  "binit s = fold (\<lambda>b s. link_front b (upd_buf b (\<lambda>r. r\<lparr>b_lock := initsleeplock\<rparr>) s)) [0..<NBUF]
     (upd_buf HEAD (\<lambda>r. r\<lparr>b_prev := HEAD, b_next := HEAD\<rparr>) s)"

definition buf_lock :: "nat \<Rightarrow> 'z bst \<Rightarrow> sleeplock" where
  "buf_lock b s = b_lock (buf s b)"

definition set_buf_lock :: "nat \<Rightarrow> sleeplock \<Rightarrow> 'z bst \<Rightarrow> 'z bst" where
  "set_buf_lock b l s = upd_buf b (\<lambda>r. r\<lparr>b_lock := l\<rparr>) s"

definition bget :: "u32 \<Rightarrow> u32 \<Rightarrow> 'z bst \<Rightarrow> 'z bst stop + nat \<times> 'z bst" where
  "bget dev blockno s =
     (case chain_find (Suc NBUF) (\<lambda>b. b_next (buf s b))
             (\<lambda>b. b_dev (buf s b) = dev \<and> b_blockno (buf s b) = blockno) HEAD (b_next (buf s HEAD)) of
        None \<Rightarrow> Inl (Fault ''bcache list'')
      | Some (Some b) \<Rightarrow>
          bindE (acquiresleep (ChanBufLock b) (buf_lock b) (set_buf_lock b)
                  (upd_buf b (\<lambda>r. r\<lparr>b_refcnt := b_refcnt r + 1\<rparr>) s)) (\<lambda>s. Inr (b, s))
      | Some None \<Rightarrow>
          (case chain_find (Suc NBUF) (\<lambda>b. b_prev (buf s b))
                  (\<lambda>b. b_refcnt (buf s b) = 0) HEAD (b_prev (buf s HEAD)) of
             None \<Rightarrow> Inl (Fault ''bcache list'')
           | Some (Some b) \<Rightarrow>
               bindE (acquiresleep (ChanBufLock b) (buf_lock b) (set_buf_lock b)
                       (upd_buf b (\<lambda>r. r\<lparr>b_dev := dev, b_blockno := blockno, b_valid := False,
                          b_refcnt := 1\<rparr>) s)) (\<lambda>s. Inr (b, s))
           | Some None \<Rightarrow> Inl (Panic ''bget: no buffers'')))"

text \<open>
  A disk transfer as the callers of \<open>virtio_disk_rw\<close> see it, once the request has
  completed.  The driver itself is in Virtio.
\<close>

definition disk_transfer :: "nat \<Rightarrow> bool \<Rightarrow> 'z bst \<Rightarrow> 'z bst" where
  "disk_transfer b write s =
     (if write
      then s\<lparr>disk := (disk s)(b_blockno (buf s b) := b_data (buf s b)),
             dwrites := dwrites s @ [(b_blockno (buf s b), b_data (buf s b))]\<rparr>
      else upd_buf b (\<lambda>r. r\<lparr>b_data := disk s (b_blockno r)\<rparr>) s)"

definition bread :: "u32 \<Rightarrow> u32 \<Rightarrow> 'z bst \<Rightarrow> 'z bst stop + nat \<times> 'z bst" where
  "bread dev blockno s =
     bindE (bget dev blockno s) (\<lambda>(b, s).
     if \<not> b_valid (buf s b)
     then Inr (b, upd_buf b (\<lambda>r. r\<lparr>b_valid := True\<rparr>) (disk_transfer b False s))
     else Inr (b, s))"

definition bwrite :: "nat \<Rightarrow> 'z bst \<Rightarrow> 'z bst stop + 'z bst" where
  "bwrite b s =
     (if \<not> holdingsleep (buf_lock b) s then Inl (Panic ''bwrite'')
      else Inr (disk_transfer b True s))"

definition brelse :: "nat \<Rightarrow> 'z bst \<Rightarrow> 'z bst stop + 'z bst" where
  "brelse b s =
     (if \<not> holdingsleep (buf_lock b) s then Inl (Panic ''brelse'')
      else let s = releasesleep (ChanBufLock b) (set_buf_lock b) s;
               s = upd_buf b (\<lambda>r. r\<lparr>b_refcnt := b_refcnt r - 1\<rparr>) s in
        if b_refcnt (buf s b) = 0
        then let s = upd_buf (b_next (buf s b)) (\<lambda>r. r\<lparr>b_prev := b_prev (buf s b)\<rparr>) s;
                 s = upd_buf (b_prev (buf s b)) (\<lambda>r. r\<lparr>b_next := b_next (buf s b)\<rparr>) s
             in Inr (link_front b s)
        else Inr s)"

definition bpin :: "nat \<Rightarrow> 'z bst \<Rightarrow> 'z bst" where
  "bpin b s = upd_buf b (\<lambda>r. r\<lparr>b_refcnt := b_refcnt r + 1\<rparr>) s"

definition bunpin :: "nat \<Rightarrow> 'z bst \<Rightarrow> 'z bst" where
  "bunpin b s = upd_buf b (\<lambda>r. r\<lparr>b_refcnt := b_refcnt r - 1\<rparr>) s"

section \<open>What the operations keep\<close>

lemma upd_buf_simps [simp]:
  "buf (upd_buf i f s) = (buf s)(i := f (buf s i))" "proc (upd_buf i f s) = proc s"
  "myproc (upd_buf i f s) = myproc s" "disk (upd_buf i f s) = disk s"
  "dwrites (upd_buf i f s) = dwrites s" "cpu_proc (upd_buf i f s) = cpu_proc s"
  "hart (upd_buf i f s) = hart s" "bio_state.more (upd_buf i f s) = bio_state.more s"
  by (simp_all add: upd_buf_def myproc_def cpuid_def)

lemma fold_upd_proc_more:
  "proc_state.more (fold (\<lambda>p. upd_proc p (g p)) xs s) = proc_state.more s"
  by (induction xs arbitrary: s) auto

lemma more_bio:
  fixes s s' :: "'z bst"
  assumes "proc_state.more s' = proc_state.more s"
  shows "buf s' = buf s \<and> disk s' = disk s \<and> dwrites s' = dwrites s \<and> bio_state.more s' = bio_state.more s"
  using assms by (cases s; cases s') simp

lemma wakeup_bio [simp]:
  fixes s :: "'z bst"
  shows "buf (wakeup c s) = buf s" "disk (wakeup c s) = disk s" "dwrites (wakeup c s) = dwrites s"
    "bio_state.more (wakeup c s) = bio_state.more s"
proof -
  have "proc_state.more (wakeup c s) = proc_state.more s"
    by (simp add: wakeup_def wakeup_fold fold_upd_proc_more del: upt_rec_numeral)
  from more_bio [OF this] show "buf (wakeup c s) = buf s" "disk (wakeup c s) = disk s"
    "dwrites (wakeup c s) = dwrites s" "bio_state.more (wakeup c s) = bio_state.more s" by auto
qed

lemma set_buf_lock_simps [simp]:
  "buf (set_buf_lock b l s) = (buf s)(b := (buf s b)\<lparr>b_lock := l\<rparr>)" "proc (set_buf_lock b l s) = proc s"
  "myproc (set_buf_lock b l s) = myproc s" "disk (set_buf_lock b l s) = disk s"
  "dwrites (set_buf_lock b l s) = dwrites s" "bio_state.more (set_buf_lock b l s) = bio_state.more s"
  by (simp_all add: set_buf_lock_def)

interpretation buflock: sleep_lock "buf_lock b" "set_buf_lock b" "ChanBufLock b" for b
  by unfold_locales (simp_all add: buf_lock_def)

section \<open>The recency list\<close>

definition blist :: "'z bst \<Rightarrow> nat list \<Rightarrow> bool" where
  "blist s bs \<longleftrightarrow> dseg (\<lambda>b. b_next (buf s b)) (\<lambda>b. b_prev (buf s b)) HEAD bs HEAD \<and>
     distinct bs \<and> set bs = {..<NBUF}"

lemma blist_cong:
  "(\<And>b. b_next (buf s' b) = b_next (buf s b)) \<Longrightarrow> (\<And>b. b_prev (buf s' b) = b_prev (buf s b)) \<Longrightarrow>
    blist s' bs = blist s bs"
  by (simp add: blist_def)

lemma blist_upd:
  "b_next (f (buf s i)) = b_next (buf s i) \<Longrightarrow> b_prev (f (buf s i)) = b_prev (buf s i) \<Longrightarrow>
    blist (upd_buf i f s) bs = blist s bs"
  by (rule blist_cong) auto

lemma blist_length: "blist s bs \<Longrightarrow> length bs < Suc NBUF"
  using distinct_card [of bs] by (simp add: blist_def)

lemma link_front_links:
  assumes "b \<noteq> HEAD"
  shows "(\<lambda>x. b_next (buf (link_front b s) x)) =
      (\<lambda>x. b_next (buf s x))(b := b_next (buf s HEAD), HEAD := b)"
    and "(\<lambda>x. b_prev (buf (link_front b s) x)) =
      (\<lambda>x. b_prev (buf s x))(b := HEAD, b_next (buf s HEAD) := b)"
  using assms by (auto simp: link_front_def Let_def fun_eq_iff)

lemma link_front_dseg:
  assumes "dseg (\<lambda>x. b_next (buf s x)) (\<lambda>x. b_prev (buf s x)) HEAD bs HEAD"
    and "distinct bs" and "HEAD \<notin> set bs" and "b \<notin> set bs" and "b \<noteq> HEAD"
  shows "dseg (\<lambda>x. b_next (buf (link_front b s) x)) (\<lambda>x. b_prev (buf (link_front b s) x)) HEAD (b # bs) HEAD"
  unfolding link_front_links [OF assms(5)] using assms by (intro dseg_push) auto

text \<open>\<open>binit\<close> builds the list of all buffers.\<close>

lemma binit_list: "blist (binit s) (rev [0..<NBUF])"
proof -
  let ?s0 = "upd_buf HEAD (\<lambda>r. r\<lparr>b_prev := HEAD, b_next := HEAD\<rparr>) s"
  let ?f = "\<lambda>b s. link_front b (upd_buf b (\<lambda>r. r\<lparr>b_lock := initsleeplock\<rparr>) s)"
  have "dseg (\<lambda>x. b_next (buf (fold ?f [0..<n] ?s0) x)) (\<lambda>x. b_prev (buf (fold ?f [0..<n] ?s0) x))
      HEAD (rev [0..<n]) HEAD" if "n \<le> NBUF" for n
    using that
  proof (induction n)
    case 0
    then show ?case by simp
  next
    case (Suc n)
    let ?t = "fold ?f [0..<n] ?s0"
    have "dseg (\<lambda>x. b_next (buf (upd_buf n (\<lambda>r. r\<lparr>b_lock := initsleeplock\<rparr>) ?t) x))
        (\<lambda>x. b_prev (buf (upd_buf n (\<lambda>r. r\<lparr>b_lock := initsleeplock\<rparr>) ?t) x)) HEAD (rev [0..<n]) HEAD"
      by (rule dseg_cong [OF Suc.IH]) (use Suc.prems in auto)
    then have "dseg (\<lambda>x. b_next (buf (?f n ?t) x)) (\<lambda>x. b_prev (buf (?f n ?t) x)) HEAD (n # rev [0..<n]) HEAD"
      by (rule link_front_dseg) (use Suc.prems in auto)
    moreover have "fold ?f [0..<Suc n] ?s0 = ?f n ?t" by simp
    moreover have "rev [0..<Suc n] = n # rev [0..<n]" by simp
    ultimately show ?case by (simp only:)
  qed
  from this [of NBUF] show ?thesis
    by (auto simp: blist_def binit_def lessThan_atLeast0 simp del: upt_rec_numeral)
qed

text \<open>\<open>brelse\<close> of the last reference moves the buffer to the front.\<close>

definition move_front :: "nat \<Rightarrow> 'z bst \<Rightarrow> 'z bst" where
  "move_front b s =
     (let s = upd_buf (b_next (buf s b)) (\<lambda>r. r\<lparr>b_prev := b_prev (buf s b)\<rparr>) s;
          s = upd_buf (b_prev (buf s b)) (\<lambda>r. r\<lparr>b_next := b_next (buf s b)\<rparr>) s
      in link_front b s)"

lemma move_front_list:
  assumes "blist s bs" and "b < NBUF"
  shows "blist (move_front b s) (b # remove1 b bs)"
proof -
  have d: "distinct bs" "set bs = {..<NBUF}" "HEAD \<notin> set bs" using assms(1) by (auto simp: blist_def)
  have "b \<in> set bs" using d assms(2) by simp
  then obtain xs ys where bs: "bs = xs @ b # ys" by (auto dest: split_list)
  then have rm: "remove1 b bs = xs @ ys" using d(1) by (simp add: remove1_append)
  let ?nx = "\<lambda>x. b_next (buf s x)" and ?pv = "\<lambda>x. b_prev (buf s x)"
  have seg: "dseg ?nx ?pv HEAD (xs @ b # ys) HEAD" using assms(1) bs by (simp add: blist_def)
  then have "dseg ?nx ?pv HEAD xs b" "dseg ?nx ?pv b ys HEAD" by (simp_all only: dseg_append)
  then have pn: "?pv b = last (HEAD # xs)" "?nx b = hd (ys @ [HEAD])"
    using dseg_last dseg_first by blast+
  have "?nx b \<in> insert HEAD (set ys)" unfolding pn by (cases ys) auto
  moreover have "?pv b \<in> insert HEAD (set xs)" unfolding pn using last_in_set [of "HEAD # xs"] by auto
  ultimately have ne: "?nx b \<noteq> b" "?pv b \<noteq> b" using d bs assms(2) by auto
  define t where "t = upd_buf (?nx b) (\<lambda>r. r\<lparr>b_prev := ?pv b\<rparr>) s"
  define u where "u = upd_buf (b_prev (buf t b)) (\<lambda>r. r\<lparr>b_next := b_next (buf t b)\<rparr>) t"
  have "(\<lambda>x. b_next (buf u x)) = ?nx(?pv b := ?nx b)" "(\<lambda>x. b_prev (buf u x)) = ?pv(?nx b := ?pv b)"
    using ne by (auto simp: u_def t_def fun_eq_iff)
  moreover have "dseg (?nx(?pv b := ?nx b)) (?pv(?nx b := ?pv b)) HEAD (xs @ ys) HEAD"
    by (rule dseg_unlink [OF seg]) (use d bs in auto)
  ultimately have "dseg (\<lambda>x. b_next (buf u x)) (\<lambda>x. b_prev (buf u x)) HEAD (xs @ ys) HEAD" by simp
  then have "dseg (\<lambda>x. b_next (buf (link_front b u) x)) (\<lambda>x. b_prev (buf (link_front b u) x))
      HEAD (b # xs @ ys) HEAD"
    by (rule link_front_dseg) (use d bs assms(2) in auto)
  moreover have "move_front b s = link_front b u" by (simp add: move_front_def u_def t_def Let_def)
  ultimately show ?thesis using d bs rm by (auto simp: blist_def)
qed

lemma link_front_fields:
  "b_valid (buf (link_front b s) i) = b_valid (buf s i)" "b_dev (buf (link_front b s) i) = b_dev (buf s i)"
  "b_blockno (buf (link_front b s) i) = b_blockno (buf s i)" "b_lock (buf (link_front b s) i) = b_lock (buf s i)"
  "b_refcnt (buf (link_front b s) i) = b_refcnt (buf s i)" "b_data (buf (link_front b s) i) = b_data (buf s i)"
  "b_disk (buf (link_front b s) i) = b_disk (buf s i)"
  "disk (link_front b s) = disk s" "dwrites (link_front b s) = dwrites s" "proc (link_front b s) = proc s"
  "myproc (link_front b s) = myproc s" "bio_state.more (link_front b s) = bio_state.more s"
  by (auto simp: link_front_def Let_def)

lemma move_front_fields:
  "b_valid (buf (move_front b s) i) = b_valid (buf s i)" "b_dev (buf (move_front b s) i) = b_dev (buf s i)"
  "b_blockno (buf (move_front b s) i) = b_blockno (buf s i)" "b_lock (buf (move_front b s) i) = b_lock (buf s i)"
  "b_refcnt (buf (move_front b s) i) = b_refcnt (buf s i)" "b_data (buf (move_front b s) i) = b_data (buf s i)"
  "b_disk (buf (move_front b s) i) = b_disk (buf s i)"
  "disk (move_front b s) = disk s" "dwrites (move_front b s) = dwrites s" "proc (move_front b s) = proc s"
  "myproc (move_front b s) = myproc s" "bio_state.more (move_front b s) = bio_state.more s"
  by (auto simp: move_front_def Let_def link_front_fields)

end
