(* ===== verification/BufCache.thy ===== *)
theory BufCache
  imports Bio
begin

text \<open>
  The buffer cache as its clients use it: a map from block numbers to contents, with a
  reference count and a lock for each block.  The operations of kernel/bio.c are shown
  to implement this map; the laws are collected in a locale.
\<close>

section \<open>The cache as a map of blocks\<close>

text \<open>
  What a client sees of the cache, by block number: the contents of a block (in the cache
  if it is there, otherwise on disk), how many references the cache holds to it, and
  whether its buffer is locked.  The file system uses one device, ROOTDEV.
\<close>

definition bcached :: "'z bst \<Rightarrow> u32 \<Rightarrow> nat \<Rightarrow> bool" where
  "bcached s b i \<longleftrightarrow> i < NBUF \<and> b_dev (buf s i) = ROOTDEV \<and> b_blockno (buf s i) = b"

definition content :: "'z bst \<Rightarrow> u32 \<Rightarrow> block" where
  "content s b = (case first_index (\<lambda>i. bcached s b i \<and> b_valid (buf s i)) NBUF of
     None \<Rightarrow> disk s b | Some i \<Rightarrow> b_data (buf s i))"

definition refs :: "'z bst \<Rightarrow> u32 \<Rightarrow> nat" where
  "refs s b = (case first_index (bcached s b) NBUF of None \<Rightarrow> 0 | Some i \<Rightarrow> unat (b_refcnt (buf s i)))"

definition held :: "'z bst \<Rightarrow> u32 \<Rightarrow> bool" where
  "held s b = (case first_index (bcached s b) NBUF of None \<Rightarrow> False | Some i \<Rightarrow> sl_locked (b_lock (buf s i)))"

text \<open>A buffer the current process holds locked.\<close>

definition handle :: "'z bst \<Rightarrow> nat \<Rightarrow> u32 \<Rightarrow> bool" where
  "handle s i b \<longleftrightarrow> bcached s b i \<and> b_valid (buf s i) \<and> holdingsleep (buf_lock i) s"

definition buf_ok :: "'z bst \<Rightarrow> buf \<Rightarrow> bool" where
  "buf_ok s r \<longleftrightarrow> (sl_locked (b_lock r) \<longrightarrow> b_refcnt r \<noteq> 0) \<and>
     (b_refcnt r \<noteq> 0 \<or> b_valid r \<longrightarrow> b_dev r = ROOTDEV) \<and>
     (b_refcnt r = 0 \<and> b_valid r \<longrightarrow> b_data r = disk s (b_blockno r))"

definition cache_ok :: "'z bst \<Rightarrow> bool" where
  "cache_ok s \<longleftrightarrow> (\<forall>i<NBUF. buf_ok s (buf s i)) \<and> (\<forall>b i j. bcached s b i \<and> bcached s b j \<longrightarrow> i = j)"

definition bio_inv :: "'z bst \<Rightarrow> bool" where
  "bio_inv s \<longleftrightarrow> (\<exists>bs. blist s bs) \<and> cache_ok s \<and> myproc s \<noteq> None"

lemma cache_ok_unique: "cache_ok s \<Longrightarrow> bcached s b i \<Longrightarrow> bcached s b j \<Longrightarrow> i = j"
  unfolding cache_ok_def by blast

lemma cache_ok_buf: "cache_ok s \<Longrightarrow> i < NBUF \<Longrightarrow> buf_ok s (buf s i)"
  unfolding cache_ok_def by blast

lemma first_cached:
  assumes "cache_ok s" and "bcached s b i"
  shows "first_index (bcached s b) NBUF = Some i"
proof -
  have "i < NBUF" using assms(2) by (simp add: bcached_def)
  then obtain j where "first_index (bcached s b) NBUF = Some j"
    using assms(2) first_index_ex by blast
  then show ?thesis using cache_ok_unique [OF assms(1)] assms(2) first_index_SomeD by blast
qed

lemma first_not_cached: "(\<And>i. \<not> bcached s b i) \<Longrightarrow> first_index (bcached s b) NBUF = None"
  by simp

lemma refs_cached: "cache_ok s \<Longrightarrow> bcached s b i \<Longrightarrow> refs s b = unat (b_refcnt (buf s i))"
  by (simp add: refs_def first_cached)

lemma held_cached: "cache_ok s \<Longrightarrow> bcached s b i \<Longrightarrow> held s b = sl_locked (b_lock (buf s i))"
  by (simp add: held_def first_cached)

lemma content_cached:
  assumes "cache_ok s" and "bcached s b i"
  shows "content s b = (if b_valid (buf s i) then b_data (buf s i) else disk s b)"
proof -
  have only: "bcached s b j \<longleftrightarrow> j = i" for j using cache_ok_unique [OF assms(1)] assms(2) by blast
  have "i < NBUF" using assms(2) by (simp add: bcached_def)
  then have "first_index (\<lambda>j. bcached s b j \<and> b_valid (buf s j)) NBUF =
      (if b_valid (buf s i) then Some i else None)"
    by (auto simp: only first_index_Some)
  then show ?thesis by (simp add: content_def)
qed

lemma not_cached:
  assumes "\<And>i. \<not> bcached s b i"
  shows "content s b = disk s b" "refs s b = 0" "\<not> held s b"
proof -
  have "first_index (bcached s b) NBUF = None" "first_index (\<lambda>i. bcached s b i \<and> b_valid (buf s i)) NBUF = None"
    using assms by simp_all
  then show "content s b = disk s b" "refs s b = 0" "\<not> held s b"
    by (simp_all only: content_def refs_def held_def option.case not_False_eq_True)
qed

lemma clean_unreferenced_cache:
  assumes "cache_ok s" and "refs s b = 0"
  shows "content s b = disk s b"
proof (cases "\<exists>i. bcached s b i")
  case True
  then obtain i where i: "bcached s b i" by blast
  then have "b_refcnt (buf s i) = 0" using assms refs_cached [OF assms(1) i] by (simp add: unat_eq_0)
  moreover have "i < NBUF" "b_blockno (buf s i) = b" using i by (auto simp: bcached_def)
  ultimately show ?thesis
    using content_cached [OF assms(1) i] cache_ok_buf [OF assms(1)] by (auto simp: buf_ok_def)
next
  case False
  then show ?thesis using not_cached(1) by blast
qed

lemma used_cached: "cache_ok s \<Longrightarrow> i < NBUF \<Longrightarrow> b_refcnt (buf s i) \<noteq> 0 \<Longrightarrow> bcached s (b_blockno (buf s i)) i"
  using cache_ok_buf [of s i] by (auto simp: buf_ok_def bcached_def)

text \<open>
  States that differ in one buffer, which keeps its block and validity, or in nothing a
  client sees.
\<close>

definition same_rest :: "'z bst \<Rightarrow> 'z bst \<Rightarrow> bool" where
  "same_rest s s' \<longleftrightarrow> disk s' = disk s \<and> dwrites s' = dwrites s \<and> myproc s' = myproc s \<and>
     bio_state.more s' = bio_state.more s \<and> (\<forall>p. p_pid (proc s' p) = p_pid (proc s p))"

lemma same_rest_refl [simp]: "same_rest s s"
  by (simp add: same_rest_def)

lemma same_rest_trans [trans]: "same_rest s t \<Longrightarrow> same_rest t u \<Longrightarrow> same_rest s u"
  by (simp add: same_rest_def)

text \<open>Two states in which every buffer other than \<open>i\<close> shows the same to clients.\<close>

definition same_bufs :: "nat \<Rightarrow> 'z bst \<Rightarrow> 'z bst \<Rightarrow> bool" where
  "same_bufs i s s' \<longleftrightarrow> (\<forall>j. j \<noteq> i \<longrightarrow> b_valid (buf s' j) = b_valid (buf s j) \<and> b_dev (buf s' j) = b_dev (buf s j) \<and>
     b_blockno (buf s' j) = b_blockno (buf s j) \<and> b_lock (buf s' j) = b_lock (buf s j) \<and>
     b_refcnt (buf s' j) = b_refcnt (buf s j) \<and> b_data (buf s' j) = b_data (buf s j))"

lemma same_bufs_upd [simp]: "same_bufs i s (upd_buf i f s)"
  by (simp add: same_bufs_def)

lemma same_bufs_cached: "same_bufs i s s' \<Longrightarrow> j \<noteq> i \<Longrightarrow> bcached s' b j = bcached s b j"
  by (simp add: same_bufs_def bcached_def)

text \<open>Views of blocks that live in other buffers are not affected by a change to buffer \<open>i\<close>.\<close>

lemma same_bufs_views:
  assumes "same_bufs i s s'" and "disk s' b = disk s b"
    and "\<not> bcached s b i" and "\<not> bcached s' b i"
  shows "content s' b = content s b" "refs s' b = refs s b" "held s' b = held s b"
proof -
  have c: "bcached s' b j = bcached s b j" for j
    using assms same_bufs_cached [OF assms(1)] by (cases "j = i") auto
  have v: "bcached s b j \<Longrightarrow> b_valid (buf s' j) = b_valid (buf s j) \<and> b_data (buf s' j) = b_data (buf s j) \<and>
      b_lock (buf s' j) = b_lock (buf s j) \<and> b_refcnt (buf s' j) = b_refcnt (buf s j)" for j
    using assms(1,3) by (cases "j = i") (auto simp: same_bufs_def)
  have eq: "bcached s' b = bcached s b"
    "(\<lambda>j. bcached s' b j \<and> b_valid (buf s' j)) = (\<lambda>j. bcached s b j \<and> b_valid (buf s j))"
    using c v by (simp_all add: fun_eq_iff) blast
  show "refs s' b = refs s b" "held s' b = held s b"
  proof -
    have "refs s' b = refs s b \<and> held s' b = held s b"
    proof (cases "first_index (bcached s b) NBUF")
      case None
      then show ?thesis unfolding refs_def held_def eq(1) None by simp
    next
      case (Some j)
      then have "bcached s b j" by (blast dest: first_index_SomeD)
      from v [OF this] show ?thesis unfolding refs_def held_def eq(1) Some by simp
    qed
    then show "refs s' b = refs s b" "held s' b = held s b" by simp_all
  qed
  show "content s' b = content s b"
  proof (cases "first_index (\<lambda>j. bcached s b j \<and> b_valid (buf s j)) NBUF")
    case None
    then show ?thesis unfolding content_def eq(2) None using assms(2) by simp
  next
    case (Some j)
    then have "bcached s b j" by (blast dest: first_index_SomeD)
    from v [OF this] show ?thesis unfolding content_def eq(2) Some by simp
  qed
qed

lemma cache_ok_change:
  assumes "cache_ok s" and "same_bufs i s s'" and "disk s' = disk s" and "buf_ok s (buf s' i)"
    and "\<And>b j. bcached s' b i \<Longrightarrow> bcached s b j \<Longrightarrow> j = i"
  shows "cache_ok s'"
proof -
  have "buf_ok s' (buf s' j)" if "j < NBUF" for j
    using cache_ok_buf [OF assms(1) that] assms(2-4) by (cases "j = i") (auto simp: buf_ok_def same_bufs_def)
  moreover have "j = k" if jk: "bcached s' b j" "bcached s' b k" for b j k
  proof -
    have old: "x \<noteq> i \<Longrightarrow> bcached s' b x \<Longrightarrow> bcached s b x" for x
      using same_bufs_cached [OF assms(2)] by blast
    show ?thesis
      using jk old assms(5) [of b] cache_ok_unique [OF assms(1), of b] by metis
  qed
  ultimately show ?thesis unfolding cache_ok_def by blast
qed

section \<open>The operations on the map of blocks\<close>

text \<open>The abstract state of the cache: what the laws below are stated over.\<close>

record bview =
  vcontent :: "u32 \<Rightarrow> block"
  vdisk :: "u32 \<Rightarrow> block"
  vtrace :: "(u32 \<times> block) list"
  vrefs :: "u32 \<Rightarrow> nat"
  vheld :: "u32 \<Rightarrow> bool"

definition bview :: "'z bst \<Rightarrow> bview" where
  "bview s = \<lparr>vcontent = content s, vdisk = disk s, vtrace = dwrites s, vrefs = refs s, vheld = held s\<rparr>"

lemma bview_simps [simp]:
  "vcontent (bview s) = content s" "vdisk (bview s) = disk s" "vtrace (bview s) = dwrites s"
  "vrefs (bview s) = refs s" "vheld (bview s) = held s"
  by (simp_all add: bview_def)

text \<open>Everything the buffer cache does not touch: the current process and the outer layers.\<close>

definition bio_ext :: "'z bst \<Rightarrow> nat option \<times> (nat \<Rightarrow> int) \<times> 'z" where
  "bio_ext s = (myproc s, (\<lambda>p. p_pid (proc s p)), bio_state.more s)"

definition set_data :: "nat \<Rightarrow> block \<Rightarrow> 'z bst \<Rightarrow> 'z bst" where
  "set_data b d s = upd_buf b (\<lambda>r. r\<lparr>b_data := d\<rparr>) s"

lemma same_rest_ext: "same_rest s s' \<Longrightarrow> bio_ext s' = bio_ext s"
  by (simp add: same_rest_def bio_ext_def)

lemma holding_locked: "holdingsleep (buf_lock i) s \<Longrightarrow> sl_locked (b_lock (buf s i))"
  by (simp add: holdingsleep_def buf_lock_def split: option.splits)

lemma holding_cong:
  "b_lock (buf s' i) = b_lock (buf s i) \<Longrightarrow> bio_ext s' = bio_ext s \<Longrightarrow>
    holdingsleep (buf_lock i) s' = holdingsleep (buf_lock i) s"
  by (auto simp: holdingsleep_def buf_lock_def bio_ext_def fun_eq_iff split: option.splits)

lemma handle_other:
  assumes "same_bufs i s s'" and "bio_ext s' = bio_ext s" and "j \<noteq> i"
  shows "handle s' j c = handle s j c"
proof -
  have "b_lock (buf s' j) = b_lock (buf s j)" "b_valid (buf s' j) = b_valid (buf s j)"
    using assms(1,3) by (simp_all add: same_bufs_def)
  then show ?thesis
    using holding_cong [of s' j s] assms(2) same_bufs_cached [OF assms(1,3)] by (simp add: handle_def)
qed

lemma bio_inv_cache: "bio_inv s \<Longrightarrow> cache_ok s"
  by (simp add: bio_inv_def)

lemma clean_unreferenced: "bio_inv s \<Longrightarrow> refs s b = 0 \<Longrightarrow> content s b = disk s b"
  by (rule clean_unreferenced_cache [OF bio_inv_cache])

lemma bio_inv_ext: "bio_ext s' = bio_ext s \<Longrightarrow> bio_inv s \<Longrightarrow> cache_ok s' \<Longrightarrow> \<exists>bs. blist s' bs \<Longrightarrow> bio_inv s'"
  by (simp add: bio_inv_def bio_ext_def)

lemma handle_refs:
  assumes "bio_inv s" and "handle s i b"
  shows "refs s b \<noteq> 0" "held s b" "content s b = b_data (buf s i)" "i < NBUF" "bcached s b i"
    "b_refcnt (buf s i) \<noteq> 0" "refs s b = unat (b_refcnt (buf s i))" "b_blockno (buf s i) = b"
proof -
  note ok = bio_inv_cache [OF assms(1)]
  have c: "bcached s b i" "b_valid (buf s i)" "sl_locked (b_lock (buf s i))"
    using assms(2) holding_locked by (auto simp: handle_def)
  then show i: "i < NBUF" "bcached s b i" "b_blockno (buf s i) = b" by (auto simp: bcached_def)
  show r: "b_refcnt (buf s i) \<noteq> 0" using cache_ok_buf [OF ok i(1)] c(3) by (simp add: buf_ok_def)
  show ru: "refs s b = unat (b_refcnt (buf s i))" by (rule refs_cached [OF ok c(1)])
  show "refs s b \<noteq> 0" using r ru by (simp add: unat_eq_0)
  show "held s b" using held_cached [OF ok c(1)] c(3) by simp
  show "content s b = b_data (buf s i)" using content_cached [OF ok c(1)] c(2) by simp
qed

lemma handle_unique: "bio_inv s \<Longrightarrow> handle s i b \<Longrightarrow> handle s j b \<Longrightarrow> i = j"
  using cache_ok_unique [OF bio_inv_cache] handle_refs(5) by blast

text \<open>
  A change to the one buffer \<open>i\<close> that keeps its block: the views of every other block are
  as before, and the views of its own block are read off the buffer.
\<close>

lemma one_buffer:
  assumes "cache_ok s" and "cache_ok s'" and "same_bufs i s s'" and "\<And>c. c \<noteq> b \<Longrightarrow> disk s' c = disk s c"
    and "bcached s b i" and "bcached s' b i" and "b_valid (buf s' i)"
  shows "content s' = (content s)(b := b_data (buf s' i))"
    and "refs s' = (refs s)(b := unat (b_refcnt (buf s' i)))"
    and "held s' = (held s)(b := sl_locked (b_lock (buf s' i)))"
proof -
  have other: "\<not> bcached s c i" "\<not> bcached s' c i" if "c \<noteq> b" for c
    using assms(5,6) that by (auto simp: bcached_def)
  show "content s' = (content s)(b := b_data (buf s' i))"
    using content_cached [OF assms(2,6)] assms(7) same_bufs_views(1) [OF assms(3)] other assms(4)
    by (auto simp: fun_eq_iff)
  show "refs s' = (refs s)(b := unat (b_refcnt (buf s' i)))"
    using refs_cached [OF assms(2,6)] same_bufs_views(2) [OF assms(3)] other assms(4)
    by (auto simp: fun_eq_iff)
  show "held s' = (held s)(b := sl_locked (b_lock (buf s' i)))"
    using held_cached [OF assms(2,6)] same_bufs_views(3) [OF assms(3)] other assms(4)
    by (auto simp: fun_eq_iff)
qed

text \<open>\<open>bget\<close>: a hit takes one more reference, a miss recycles the least recently used free buffer.\<close>

lemma bget_hit:
  assumes "bio_inv s" and "bcached s b i"
  shows "bget ROOTDEV b s = bindE (acquiresleep (ChanBufLock i) (buf_lock i) (set_buf_lock i)
      (upd_buf i (\<lambda>r. r\<lparr>b_refcnt := b_refcnt r + 1\<rparr>) s)) (\<lambda>s. Inr (i, s))"
proof -
  obtain bs where bs: "blist s bs" using assms(1) by (auto simp: bio_inv_def)
  let ?P = "\<lambda>x. b_dev (buf s x) = ROOTDEV \<and> b_blockno (buf s x) = b"
  have P: "x \<in> set bs \<Longrightarrow> ?P x \<longleftrightarrow> x = i" for x
    using cache_ok_unique [OF bio_inv_cache [OF assms(1)]] assms(2) bs
    by (auto simp: blist_def bcached_def)
  have "i \<in> set bs" using assms(2) bs by (simp add: blist_def bcached_def)
  then have "List.find ?P bs = Some i"
    using P by (induction bs) auto
  moreover have "chain_find (Suc NBUF) (\<lambda>x. b_next (buf s x)) ?P HEAD (b_next (buf s HEAD)) = Some (List.find ?P bs)"
    using bs blist_length [OF bs] by (intro chain_find_dseg) (auto simp: blist_def)
  ultimately show ?thesis by (simp only: bget_def option.case)
qed

lemma bget_miss:
  assumes "bio_inv s" and "\<And>i. \<not> bcached s b i"
  obtains (recycle) i where "i < NBUF" "b_refcnt (buf s i) = 0"
      "bget ROOTDEV b s = bindE (acquiresleep (ChanBufLock i) (buf_lock i) (set_buf_lock i)
         (upd_buf i (\<lambda>r. r\<lparr>b_dev := ROOTDEV, b_blockno := b, b_valid := False, b_refcnt := 1\<rparr>) s))
         (\<lambda>s. Inr (i, s))"
  | (full) "\<And>i. i < NBUF \<Longrightarrow> b_refcnt (buf s i) \<noteq> 0" "bget ROOTDEV b s = Inl (Panic ''bget: no buffers'')"
proof -
  obtain bs where bs: "blist s bs" using assms(1) by (auto simp: bio_inv_def)
  let ?P = "\<lambda>x. b_dev (buf s x) = ROOTDEV \<and> b_blockno (buf s x) = b"
  let ?Q = "\<lambda>x. b_refcnt (buf s x) = 0"
  have "List.find ?P bs = None"
    using assms(2) bs by (auto simp: find_None_iff blist_def bcached_def)
  moreover have "chain_find (Suc NBUF) (\<lambda>x. b_next (buf s x)) ?P HEAD (b_next (buf s HEAD)) = Some (List.find ?P bs)"
    using bs blist_length [OF bs] by (intro chain_find_dseg) (auto simp: blist_def)
  moreover have q: "chain_find (Suc NBUF) (\<lambda>x. b_prev (buf s x)) ?Q HEAD (b_prev (buf s HEAD)) = Some (List.find ?Q (rev bs))"
    using bs blist_length [OF bs] by (intro chain_find_dseg_back) (auto simp: blist_def)
  ultimately have f: "chain_find (Suc NBUF) (\<lambda>x. b_next (buf s x)) ?P HEAD (b_next (buf s HEAD)) = Some None"
    by simp
  show thesis
  proof (cases "List.find ?Q (rev bs)")
    case None
    then have "\<And>i. i < NBUF \<Longrightarrow> b_refcnt (buf s i) \<noteq> 0" using bs by (auto simp: find_None_iff blist_def)
    moreover have "bget ROOTDEV b s = Inl (Panic ''bget: no buffers'')"
      unfolding bget_def f option.case q None by simp
    ultimately show thesis by (rule full)
  next
    case (Some i)
    have "i < NBUF" "b_refcnt (buf s i) = 0"
      using Some bs nth_mem [of _ "rev bs"] by (auto simp: find_Some_iff blist_def)
    moreover have "bget ROOTDEV b s = bindE (acquiresleep (ChanBufLock i) (buf_lock i) (set_buf_lock i)
         (upd_buf i (\<lambda>r. r\<lparr>b_dev := ROOTDEV, b_blockno := b, b_valid := False, b_refcnt := 1\<rparr>) s))
         (\<lambda>s. Inr (i, s))"
      unfolding bget_def f option.case q Some by simp
    ultimately show thesis by (rule recycle)
  qed
qed

lemma acquire_buf:
  fixes s :: "'z bst"
  assumes "acquiresleep (ChanBufLock i) (buf_lock i) (set_buf_lock i) s = Inr s'"
  obtains p where "myproc s = Some p" "\<not> sl_locked (b_lock (buf s i))"
    "s' = set_buf_lock i \<lparr>sl_locked = True, sl_pid = p_pid (proc s p)\<rparr> s"
  using assms by (auto simp: acquiresleep_def with_myproc_def buf_lock_def sleep_def
      split: option.splits if_splits)

text \<open>The state after \<open>bread\<close>, from the state before and the buffer it returns.\<close>

lemma bread_state:
  assumes "bio_inv s" and "bread ROOTDEV b s = Inr (i, s')"
  obtains p where "myproc s = Some p" "i < NBUF" "\<not> sl_locked (b_lock (buf s i))"
    "bcached s b i \<or> (\<forall>j. \<not> bcached s b j) \<and> b_refcnt (buf s i) = 0"
    "s' = upd_buf i (\<lambda>r. r\<lparr>b_dev := ROOTDEV, b_blockno := b, b_valid := True,
       b_refcnt := (if bcached s b i then b_refcnt r + 1 else 1),
       b_lock := \<lparr>sl_locked = True, sl_pid = p_pid (proc s p)\<rparr>, b_data := content s b\<rparr>) s"
proof -
  obtain t where t: "bget ROOTDEV b s = Inr (i, t)"
    using assms(2) by (auto simp: bread_def split: if_splits)
  then have s': "s' = (if \<not> b_valid (buf t i) then upd_buf i (\<lambda>r. r\<lparr>b_valid := True\<rparr>) (disk_transfer i False t) else t)"
    using assms(2) by (auto simp: bread_def)
  note ok = bio_inv_cache [OF assms(1)]
  show thesis
  proof (cases "\<exists>j. bcached s b j")
    case True
    then obtain j where j: "bcached s b j" by blast
    have "acquiresleep (ChanBufLock j) (buf_lock j) (set_buf_lock j)
      (upd_buf j (\<lambda>r. r\<lparr>b_refcnt := b_refcnt r + 1\<rparr>) s) = Inr t" "j = i"
      using t bget_hit [OF assms(1) j] by auto
    then obtain p where p: "myproc s = Some p" "\<not> sl_locked (b_lock (buf s i))"
      "t = set_buf_lock i \<lparr>sl_locked = True, sl_pid = p_pid (proc s p)\<rparr> (upd_buf i (\<lambda>r. r\<lparr>b_refcnt := b_refcnt r + 1\<rparr>) s)"
      by (auto elim!: acquire_buf)
    have c: "bcached s b i" using j \<open>j = i\<close> by simp
    show thesis
    proof (rule that [OF p(1) _ p(2)])
      show "i < NBUF" using c by (simp add: bcached_def)
      show "bcached s b i \<or> (\<forall>j. \<not> bcached s b j) \<and> b_refcnt (buf s i) = 0" using c by simp
      show "s' = upd_buf i (\<lambda>r. r\<lparr>b_dev := ROOTDEV, b_blockno := b, b_valid := True,
       b_refcnt := (if bcached s b i then b_refcnt r + 1 else 1),
       b_lock := \<lparr>sl_locked = True, sl_pid = p_pid (proc s p)\<rparr>, b_data := content s b\<rparr>) s"
        using c content_cached [OF ok c] unfolding s' p(3)
        by (cases "buf s i") (auto simp: upd_buf_def set_buf_lock_def disk_transfer_def bcached_def)
    qed
  next
    case False
    then have nc: "\<And>j. \<not> bcached s b j" by blast
    from assms(1) nc show thesis
    proof (cases rule: bget_miss)
      case (recycle j)
      have "acquiresleep (ChanBufLock j) (buf_lock j) (set_buf_lock j)
         (upd_buf j (\<lambda>r. r\<lparr>b_dev := ROOTDEV, b_blockno := b, b_valid := False, b_refcnt := 1\<rparr>) s) = Inr t" "j = i"
        using t recycle(3) by auto
      then obtain p where p: "myproc s = Some p" "\<not> sl_locked (b_lock (buf s i))"
        "t = set_buf_lock i \<lparr>sl_locked = True, sl_pid = p_pid (proc s p)\<rparr>
          (upd_buf i (\<lambda>r. r\<lparr>b_dev := ROOTDEV, b_blockno := b, b_valid := False, b_refcnt := 1\<rparr>) s)"
        by (auto elim!: acquire_buf)
      show thesis
      proof (rule that [OF p(1) _ p(2)])
        show "i < NBUF" "bcached s b i \<or> (\<forall>j. \<not> bcached s b j) \<and> b_refcnt (buf s i) = 0"
          using recycle(1,2) \<open>j = i\<close> nc by auto
        show "s' = upd_buf i (\<lambda>r. r\<lparr>b_dev := ROOTDEV, b_blockno := b, b_valid := True,
           b_refcnt := (if bcached s b i then b_refcnt r + 1 else 1),
           b_lock := \<lparr>sl_locked = True, sl_pid = p_pid (proc s p)\<rparr>, b_data := content s b\<rparr>) s"
          using nc not_cached(1) [OF nc] unfolding s' p(3)
          by (cases "buf s i") (auto simp: upd_buf_def set_buf_lock_def disk_transfer_def)
      qed
    next
      case full
      then show thesis using t by simp
    qed
  qed
qed

lemma unat_Suc_u32: "unat x + 1 < 2 ^ 32 \<Longrightarrow> unat (x + 1 :: u32) = Suc (unat x)"
  by (simp add: unat_word_ariths)

lemma bread_law:
  assumes inv: "bio_inv s" and rd: "bread ROOTDEV b s = Inr (i, s')" and small: "refs s b + 1 < 2 ^ 32"
  shows "bio_inv s' \<and> handle s' i b \<and> \<not> held s b \<and> bio_ext s' = bio_ext s \<and>
    bview s' = (bview s)\<lparr>vrefs := (refs s)(b := Suc (refs s b)), vheld := (held s)(b := True)\<rparr> \<and>
    (\<forall>j c. handle s j c \<longrightarrow> handle s' j c \<and> c \<noteq> b)"
proof -
  from inv rd obtain p where p: "myproc s = Some p" and i: "i < NBUF" "\<not> sl_locked (b_lock (buf s i))"
    and hit: "bcached s b i \<or> (\<forall>j. \<not> bcached s b j) \<and> b_refcnt (buf s i) = 0"
    and s': "s' = upd_buf i (\<lambda>r. r\<lparr>b_dev := ROOTDEV, b_blockno := b, b_valid := True,
       b_refcnt := (if bcached s b i then b_refcnt r + 1 else 1),
       b_lock := \<lparr>sl_locked = True, sl_pid = p_pid (proc s p)\<rparr>, b_data := content s b\<rparr>) s"
    by (rule bread_state)
  note ok = bio_inv_cache [OF inv]
  have sb: "same_bufs i s s'" and d: "disk s' = disk s" "dwrites s' = dwrites s" by (simp_all add: s')
  have bx: "bio_ext s' = bio_ext s" by (simp add: s' bio_ext_def)
  have c': "bcached s' b i" using i by (simp add: s' bcached_def)
  have cnt: "unat (b_refcnt (buf s' i)) = Suc (refs s b)"
    using hit small refs_cached [OF ok] not_cached(2) [of s b] by (auto simp: s' unat_Suc_u32)
  have nz: "b_refcnt (buf s' i) \<noteq> 0" using cnt by auto
  have uniq: "bcached s c j \<Longrightarrow> bcached s' c i \<Longrightarrow> j = i" for c j
    using hit cache_ok_unique [OF ok] by (auto simp: s' bcached_def)
  have ok': "cache_ok s'"
    using ok sb d(1) by (rule cache_ok_change) (use nz uniq in \<open>auto simp: s' buf_ok_def\<close>)
  have nh: "\<not> held s b" using hit held_cached [OF ok] not_cached(3) [of s b] i(2) by auto
  have views: "content s' = content s \<and> refs s' = (refs s)(b := Suc (refs s b)) \<and> held s' = (held s)(b := True)"
  proof (cases "bcached s b i")
    case True
    have "b_valid (buf s' i)" "b_data (buf s' i) = content s b" "sl_locked (b_lock (buf s' i))" by (simp_all add: s')
    then show ?thesis using one_buffer [OF ok ok' sb _ True c'] d(1) cnt by simp
  next
    case False
    then have free: "\<forall>j. \<not> bcached s b j" "b_refcnt (buf s i) = 0" using hit by auto
    have "content s' c = content s c \<and> refs s' c = refs s c \<and> held s' c = held s c" if "c \<noteq> b" for c
    proof (cases "bcached s c i")
      case True
      have nc: "\<not> bcached s' c j" for j
      proof (cases "j = i")
        case True
        then show ?thesis using that c' by (simp add: bcached_def)
      next
        case False
        then show ?thesis using same_bufs_cached [OF sb False] cache_ok_unique [OF ok True] by blast
      qed
      have "content s c = disk s c"
        using content_cached [OF ok True] cache_ok_buf [OF ok i(1)] free(2) True
        by (auto simp: buf_ok_def bcached_def)
      then show ?thesis
        using not_cached [OF nc] refs_cached [OF ok True] held_cached [OF ok True] free(2) i(2) d by simp
    next
      case False
      moreover have "\<not> bcached s' c i" using that c' by (simp add: bcached_def)
      ultimately show ?thesis using same_bufs_views [OF sb _ False] d by simp
    qed
    moreover have "content s' b = content s b" using content_cached [OF ok' c'] by (simp add: s')
    moreover have "refs s' b = Suc (refs s b)" using refs_cached [OF ok' c'] cnt by simp
    moreover have "held s' b" using held_cached [OF ok' c'] by (simp add: s')
    ultimately have "content s' c = content s c \<and> refs s' c = ((refs s)(b := Suc (refs s b))) c \<and>
        held s' c = ((held s)(b := True)) c" for c
      by (cases "c = b") simp_all
    then show ?thesis by (intro conjI ext) simp_all
  qed
  have "handle s' j c \<and> c \<noteq> b" if "handle s j c" for j c
  proof -
    have "j \<noteq> i" using that i(2) holding_locked by (auto simp: handle_def)
    moreover have "c \<noteq> b" using handle_refs(2) [OF inv that] nh by auto
    ultimately show ?thesis using handle_other [OF sb bx] that by simp
  qed
  moreover have "handle s' i b"
    using c' p by (simp add: handle_def) (simp add: s' holdingsleep_def buf_lock_def)
  moreover have "bio_inv s'"
    using bx inv ok' by (rule bio_inv_ext) (use inv in \<open>simp add: s' blist_upd bio_inv_def\<close>)
  moreover have "bview s' = (bview s)\<lparr>vrefs := (refs s)(b := Suc (refs s b)), vheld := (held s)(b := True)\<rparr>"
    using views d by (simp add: bview_def)
  ultimately show ?thesis using nh bx by blast
qed

text \<open>\<open>bread\<close> returns a buffer unless the block is locked or every buffer is in use.\<close>

lemma bread_total:
  assumes inv: "bio_inv s" and nh: "\<not> held s b" and room: "refs s b \<noteq> 0 \<or> card {c. refs s c \<noteq> 0} < NBUF"
  shows "\<exists>i s'. bread ROOTDEV b s = Inr (i, s')"
proof -
  note ok = bio_inv_cache [OF inv]
  obtain p where p: "myproc s = Some p" using inv by (auto simp: bio_inv_def)
  show ?thesis
  proof (cases "\<exists>i. bcached s b i")
    case True
    then obtain i where i: "bcached s b i" by blast
    then have "\<not> sl_locked (b_lock (buf s i))" using nh held_cached [OF ok i] by simp
    then show ?thesis
      using bget_hit [OF inv i] p by (simp add: bread_def acquiresleep_def with_myproc_def buf_lock_def)
  next
    case False
    then have nc: "\<And>i. \<not> bcached s b i" by blast
    from inv nc show ?thesis
    proof (cases rule: bget_miss)
      case (recycle i)
      then have "\<not> sl_locked (b_lock (buf s i))" using cache_ok_buf [OF ok] by (auto simp: buf_ok_def)
      then show ?thesis
        using recycle(3) p by (simp add: bread_def acquiresleep_def with_myproc_def buf_lock_def)
    next
      case full
      let ?f = "\<lambda>i. b_blockno (buf s i)"
      have c: "i < NBUF \<Longrightarrow> bcached s (?f i) i" for i using used_cached [OF ok] full(1) by blast
      have "inj_on ?f {..<NBUF}"
        by (rule inj_onI) (metis c cache_ok_unique [OF ok] lessThan_iff)
      moreover have "?f ` {..<NBUF} \<subseteq> {c. refs s c \<noteq> 0}"
      proof (rule image_subsetI)
        fix i assume "i \<in> {..<NBUF}"
        then show "?f i \<in> {c. refs s c \<noteq> 0}"
          using refs_cached [OF ok c [of i]] full(1) [of i] by (simp add: unat_gt_0)
      qed
      ultimately have "NBUF \<le> card {c. refs s c \<noteq> 0}"
        using card_inj_on_le [of ?f "{..<NBUF}" "{c. refs s c \<noteq> 0}"] by simp
      then show ?thesis using room not_cached(2) [OF nc] by simp
    qed
  qed
qed

text \<open>
  A change of a held buffer that keeps its block, its lock and its links: the contents and
  the reference count of its block change, nothing else does.
\<close>

lemma held_buffer_change:
  assumes inv: "bio_inv s" and h: "handle s i b" and s': "s' = upd_buf i f s"
    and f: "b_valid (f (buf s i)) = b_valid (buf s i)" "b_dev (f (buf s i)) = b_dev (buf s i)"
      "b_blockno (f (buf s i)) = b_blockno (buf s i)" "b_lock (f (buf s i)) = b_lock (buf s i)"
      "b_next (f (buf s i)) = b_next (buf s i)" "b_prev (f (buf s i)) = b_prev (buf s i)"
      "b_refcnt (f (buf s i)) \<noteq> 0"
  shows "bio_inv s' \<and> bio_ext s' = bio_ext s \<and> (\<forall>j c. handle s j c \<longrightarrow> handle s' j c) \<and>
    bview s' = (bview s)\<lparr>vcontent := (content s)(b := b_data (f (buf s i))),
      vrefs := (refs s)(b := unat (b_refcnt (f (buf s i))))\<rparr>"
proof -
  note ok = bio_inv_cache [OF inv] and hr = handle_refs [OF inv h]
  have sb: "same_bufs i s s'" and d: "disk s' = disk s" "dwrites s' = dwrites s" by (simp_all add: s')
  have bx: "bio_ext s' = bio_ext s" by (simp add: s' bio_ext_def)
  have cc: "bcached s' c j = bcached s c j" for c j by (simp add: s' bcached_def f)
  have v: "b_valid (buf s i)" using h by (simp add: handle_def)
  have ok': "cache_ok s'"
    using ok sb d(1)
  proof (rule cache_ok_change)
    show "buf_ok s (buf s' i)" using cache_ok_buf [OF ok hr(4)] f(7) hr(6) by (simp add: buf_ok_def s' f)
    show "bcached s' c i \<Longrightarrow> bcached s c j \<Longrightarrow> j = i" for c j using cc cache_ok_unique [OF ok] by blast
  qed
  have inv': "bio_inv s'"
    using bx inv ok' by (rule bio_inv_ext) (use inv in \<open>simp add: s' blist_upd f bio_inv_def\<close>)
  have lk: "b_lock (buf s' j) = b_lock (buf s j)" "b_valid (buf s' j) = b_valid (buf s j)" for j by (simp_all add: s' f)
  have "handle s' j c" if "handle s j c" for j c
    using that holding_cong [OF lk(1) bx] by (simp add: handle_def cc lk(2))
  moreover have "bview s' = (bview s)\<lparr>vcontent := (content s)(b := b_data (f (buf s i))),
      vrefs := (refs s)(b := unat (b_refcnt (f (buf s i))))\<rparr>"
  proof -
    have "bcached s' b i" "b_valid (buf s' i)" using hr(5) v by (simp_all add: cc) (simp add: s' f)
    note ob = one_buffer [OF ok ok' sb _ hr(5) this]
    have "sl_locked (b_lock (buf s' i))" "held s b" using hr(2) held_cached [OF ok hr(5)] lk(1) by simp_all
    then show ?thesis using ob d by (simp add: bview_def s' fun_upd_idem)
  qed
  ultimately show ?thesis using inv' bx by blast
qed

lemma set_data_law:
  assumes "bio_inv s" and "handle s i b"
  shows "bio_inv (set_data i d s) \<and> bio_ext (set_data i d s) = bio_ext s \<and>
    (\<forall>j c. handle s j c \<longrightarrow> handle (set_data i d s) j c) \<and>
    bview (set_data i d s) = (bview s)\<lparr>vcontent := (content s)(b := d)\<rparr>"
proof -
  note hr = handle_refs [OF assms]
  have "(refs s)(b := unat (b_refcnt (buf s i))) = refs s" by (rule fun_upd_idem) (simp add: hr(7))
  then show ?thesis
    using held_buffer_change [OF assms set_data_def] hr(6) by (simp add: bview_def)
qed

lemma bpin_law:
  assumes "bio_inv s" and "handle s i b" and "refs s b + 1 < 2 ^ 32"
  shows "bio_inv (bpin i s) \<and> bio_ext (bpin i s) = bio_ext s \<and>
    (\<forall>j c. handle s j c \<longrightarrow> handle (bpin i s) j c) \<and>
    bview (bpin i s) = (bview s)\<lparr>vrefs := (refs s)(b := Suc (refs s b))\<rparr>"
proof -
  note hr = handle_refs [OF assms(1,2)]
  have u: "unat (b_refcnt (buf s i) + 1) = Suc (refs s b)" using assms(3) hr(7) by (simp add: unat_Suc_u32)
  then have "b_refcnt (buf s i) + 1 \<noteq> 0" by (metis nat.distinct(1) unat_0)
  moreover have "(content s)(b := b_data (buf s i)) = content s" by (rule fun_upd_idem) (simp add: hr(3))
  ultimately show ?thesis
    using held_buffer_change [OF assms(1,2) bpin_def] u by (simp add: bview_def)
qed

lemma unat_minus_1_u32: "x \<noteq> 0 \<Longrightarrow> unat (x - 1 :: u32) = unat x - 1"
  by (rule unat_minus_one) auto

lemma bunpin_law:
  assumes "bio_inv s" and "handle s i b" and "1 < refs s b"
  shows "bio_inv (bunpin i s) \<and> bio_ext (bunpin i s) = bio_ext s \<and>
    (\<forall>j c. handle s j c \<longrightarrow> handle (bunpin i s) j c) \<and>
    bview (bunpin i s) = (bview s)\<lparr>vrefs := (refs s)(b := refs s b - 1)\<rparr>"
proof -
  note hr = handle_refs [OF assms(1,2)]
  have u: "unat (b_refcnt (buf s i) - 1) = refs s b - 1" using hr(6,7) by (simp add: unat_minus_1_u32)
  then have "b_refcnt (buf s i) - 1 \<noteq> 0" using assms(3) by (metis unat_0 zero_less_diff less_numeral_extra(3))
  moreover have "(content s)(b := b_data (buf s i)) = content s" by (rule fun_upd_idem) (simp add: hr(3))
  ultimately show ?thesis
    using held_buffer_change [OF assms(1,2) bunpin_def] u by (simp add: bview_def)
qed

lemma bwrite_law:
  assumes inv: "bio_inv s" and h: "handle s i b"
  shows "\<exists>s'. bwrite i s = Inr s' \<and> bio_inv s' \<and> bio_ext s' = bio_ext s \<and>
    (\<forall>j c. handle s j c \<longrightarrow> handle s' j c) \<and>
    bview s' = (bview s)\<lparr>vdisk := (disk s)(b := content s b), vtrace := dwrites s @ [(b, content s b)]\<rparr>"
proof -
  note ok = bio_inv_cache [OF inv] and hr = handle_refs [OF inv h]
  define s' where "s' = s\<lparr>disk := (disk s)(b := content s b), dwrites := dwrites s @ [(b, content s b)]\<rparr>"
  have w: "bwrite i s = Inr s'"
    using h hr by (simp add: bwrite_def disk_transfer_def s'_def handle_def)
  have b: "buf s' = buf s" "disk s' = (disk s)(b := content s b)" "proc s' = proc s" "myproc s' = myproc s"
    "bio_state.more s' = bio_state.more s" "dwrites s' = dwrites s @ [(b, content s b)]"
    by (simp_all add: s'_def myproc_def cpuid_def)
  have bx: "bio_ext s' = bio_ext s" by (simp add: bio_ext_def b)
  have cc: "bcached s' = bcached s" by (simp add: bcached_def fun_eq_iff b)
  have "buf_ok s' (buf s' j)" if "j < NBUF" for j
  proof (cases "b_blockno (buf s j) = b \<and> b_valid (buf s j) \<and> b_refcnt (buf s j) = 0")
    case True
    then have "bcached s b j" using cache_ok_buf [OF ok that] that by (simp add: buf_ok_def bcached_def)
    then have "j = i" using cache_ok_unique [OF ok] hr(5) by blast
    then show ?thesis using True hr(6) by simp
  next
    case False
    then show ?thesis using cache_ok_buf [OF ok that] by (auto simp: buf_ok_def b)
  qed
  then have ok': "cache_ok s'" using ok unfolding cache_ok_def cc by blast
  have inv': "bio_inv s'"
    using bx inv ok' by (rule bio_inv_ext) (use inv in \<open>simp add: bio_inv_def blist_def b\<close>)
  have "handle s' j c" if "handle s j c" for j c
    using that holding_cong [of s' j s] bx by (simp add: handle_def cc b)
  moreover have "content s' c = content s c" for c
  proof (cases "\<exists>j. bcached s c j")
    case True
    then obtain j where j: "bcached s c j" by blast
    then have j': "bcached s' c j" by (simp add: cc)
    show ?thesis
    proof (cases "b_valid (buf s j)")
      case True
      then show ?thesis using content_cached [OF ok j] content_cached [OF ok' j'] by (simp add: b)
    next
      case False
      then have "c \<noteq> b" using cache_ok_unique [OF ok hr(5)] j h by (auto simp: handle_def)
      then show ?thesis using False content_cached [OF ok j] content_cached [OF ok' j'] by (simp add: b)
    qed
  next
    case False
    moreover from this have "c \<noteq> b" using hr(5) by blast
    ultimately show ?thesis using not_cached(1) [of s c] not_cached(1) [of s' c] by (simp add: cc b)
  qed
  then have "content s' = content s" by blast
  moreover have "refs s' = refs s" "held s' = held s" unfolding refs_def held_def cc b by simp_all
  ultimately show ?thesis using w inv' bx b by (intro exI [of _ s']) (simp add: bview_def)
qed

lemma brelse_state:
  fixes s :: "'z bst"
  assumes "handle s i b"
  shows "\<exists>t. brelse i s = Inr (if b_refcnt (buf s i) - 1 = 0 then move_front i t else t) \<and>
    buf t = (buf s)(i := (buf s i)\<lparr>b_lock := unlocked, b_refcnt := b_refcnt (buf s i) - 1\<rparr>) \<and>
    disk t = disk s \<and> dwrites t = dwrites s \<and> bio_ext t = bio_ext s"
proof -
  let ?t = "upd_buf i (\<lambda>r. r\<lparr>b_refcnt := b_refcnt r - 1\<rparr>) (releasesleep (ChanBufLock i) (set_buf_lock i) s)"
  have b: "buf ?t = (buf s)(i := (buf s i)\<lparr>b_lock := unlocked, b_refcnt := b_refcnt (buf s i) - 1\<rparr>)"
    by (simp add: releasesleep_def)
  have "brelse i s = Inr (if b_refcnt (buf ?t i) = 0 then move_front i ?t else ?t)"
    using assms unfolding brelse_def handle_def move_front_def Let_def by (simp only: simp_thms if_False if_True split: if_split) simp
  moreover have "p_pid (proc ?t p) = p_pid (proc s p)" for p
    by (simp add: releasesleep_def wakeup_table)
  ultimately show ?thesis
    using b by (intro exI [of _ ?t]) (simp add: bio_ext_def releasesleep_def)
qed

lemma brelse_law:
  assumes inv: "bio_inv s" and h: "handle s i b" and cl: "1 < refs s b \<or> content s b = disk s b"
  shows "\<exists>s'. brelse i s = Inr s' \<and> bio_inv s' \<and> bio_ext s' = bio_ext s \<and>
    (\<forall>j c. handle s j c \<and> c \<noteq> b \<longrightarrow> handle s' j c) \<and>
    bview s' = (bview s)\<lparr>vrefs := (refs s)(b := refs s b - 1), vheld := (held s)(b := False)\<rparr>"
proof -
  note ok = bio_inv_cache [OF inv] and hr = handle_refs [OF inv h]
  obtain t where r: "brelse i s = Inr (if b_refcnt (buf s i) - 1 = 0 then move_front i t else t)"
    and t: "buf t = (buf s)(i := (buf s i)\<lparr>b_lock := unlocked, b_refcnt := b_refcnt (buf s i) - 1\<rparr>)"
      "disk t = disk s" "dwrites t = dwrites s" "bio_ext t = bio_ext s"
    using brelse_state [OF h] by blast
  define s' where "s' = (if b_refcnt (buf s i) - 1 = 0 then move_front i t else t)"
  have fld: "b_valid (buf s' j) = b_valid (buf s j)" "b_dev (buf s' j) = b_dev (buf s j)"
    "b_blockno (buf s' j) = b_blockno (buf s j)" "b_data (buf s' j) = b_data (buf s j)"
    "b_lock (buf s' j) = (if j = i then unlocked else b_lock (buf s j))"
    "b_refcnt (buf s' j) = (if j = i then b_refcnt (buf s i) - 1 else b_refcnt (buf s j))" for j
    by (simp_all add: s'_def move_front_fields t(1))
  have d: "disk s' = disk s" "dwrites s' = dwrites s" by (simp_all add: s'_def move_front_fields t)
  have bx: "bio_ext s' = bio_ext s" using t(4) by (simp add: s'_def bio_ext_def move_front_fields)
  have sb: "same_bufs i s s'" by (simp add: same_bufs_def fld)
  have cc: "bcached s' c j = bcached s c j" for c j by (simp add: bcached_def fld)
  have v: "b_valid (buf s i)" using h by (simp add: handle_def)
  have u: "unat (b_refcnt (buf s i) - 1) = refs s b - 1" using hr(6,7) by (simp add: unat_minus_1_u32)
  have ok': "cache_ok s'"
    using ok sb d(1)
  proof (rule cache_ok_change)
    show "buf_ok s (buf s' i)"
      using cache_ok_buf [OF ok hr(4)] hr(3,6,8) v cl u by (auto simp: buf_ok_def fld)
    show "bcached s' c i \<Longrightarrow> bcached s c j \<Longrightarrow> j = i" for c j using cc cache_ok_unique [OF ok] by blast
  qed
  obtain bs where bs: "blist s bs" using inv by (auto simp: bio_inv_def)
  have "blist t bs = blist s bs" by (rule blist_cong) (simp_all add: t(1))
  with bs have "blist t bs" by simp
  then have "\<exists>bs. blist s' bs" using move_front_list hr(4) by (auto simp: s'_def)
  then have inv': "bio_inv s'" by (rule bio_inv_ext [OF bx inv ok'])
  have "handle s' j c" if "handle s j c" "c \<noteq> b" for j c
  proof -
    have "j \<noteq> i" using that hr(8) handle_refs(8) [OF inv] by blast
    then show ?thesis using handle_other [OF sb bx] that by simp
  qed
  moreover have "bview s' = (bview s)\<lparr>vrefs := (refs s)(b := refs s b - 1), vheld := (held s)(b := False)\<rparr>"
  proof -
    have "bcached s' b i" "b_valid (buf s' i)" using hr(5) v by (simp_all add: cc fld)
    note ob = one_buffer [OF ok ok' sb _ hr(5) this]
    have "(content s)(b := b_data (buf s i)) = content s" by (rule fun_upd_idem) (simp add: hr(3))
    then show ?thesis using ob d u by (simp add: bview_def fld)
  qed
  ultimately show ?thesis using r inv' bx unfolding s'_def [symmetric] by blast
qed

section \<open>The interface\<close>

text \<open>
  What the log and the file system rely on.  A client reads a block into a handle, changes
  and writes its contents, and releases it; \<open>room\<close> says when a read cannot fail.
\<close>

locale block_cache =
  fixes inv :: "'s \<Rightarrow> bool"
    and view :: "'s \<Rightarrow> bview"
    and ext :: "'s \<Rightarrow> 'x"
    and handle :: "'s \<Rightarrow> nat \<Rightarrow> u32 \<Rightarrow> bool"
    and bread :: "u32 \<Rightarrow> 's \<Rightarrow> 'e + nat \<times> 's"
    and set_data :: "nat \<Rightarrow> block \<Rightarrow> 's \<Rightarrow> 's"
    and get_data :: "nat \<Rightarrow> 's \<Rightarrow> block"
    and bwrite :: "nat \<Rightarrow> 's \<Rightarrow> 'e + 's"
    and brelse :: "nat \<Rightarrow> 's \<Rightarrow> 'e + 's"
  assumes rd: "inv s \<Longrightarrow> bread b s = Inr (i, s') \<Longrightarrow> vrefs (view s) b + 1 < 2 ^ 32 \<Longrightarrow>
      inv s' \<and> handle s' i b \<and> \<not> vheld (view s) b \<and> ext s' = ext s \<and>
      view s' = (view s)\<lparr>vrefs := (vrefs (view s))(b := Suc (vrefs (view s) b)),
        vheld := (vheld (view s))(b := True)\<rparr> \<and>
      (\<forall>j c. handle s j c \<longrightarrow> handle s' j c \<and> c \<noteq> b)"
    and rd_total: "inv s \<Longrightarrow> \<not> vheld (view s) b \<Longrightarrow>
      vrefs (view s) b \<noteq> 0 \<or> card {c. vrefs (view s) c \<noteq> 0} < NBUF \<Longrightarrow> \<exists>i s'. bread b s = Inr (i, s')"
    and gt: "inv s \<Longrightarrow> handle s i b \<Longrightarrow> get_data i s = vcontent (view s) b"
    and st: "inv s \<Longrightarrow> handle s i b \<Longrightarrow> inv (set_data i d s) \<and> ext (set_data i d s) = ext s \<and>
      (\<forall>j c. handle s j c \<longrightarrow> handle (set_data i d s) j c) \<and>
      view (set_data i d s) = (view s)\<lparr>vcontent := (vcontent (view s))(b := d)\<rparr>"
    and wr: "inv s \<Longrightarrow> handle s i b \<Longrightarrow> \<exists>s'. bwrite i s = Inr s' \<and> inv s' \<and> ext s' = ext s \<and>
      (\<forall>j c. handle s j c \<longrightarrow> handle s' j c) \<and>
      view s' = (view s)\<lparr>vdisk := (vdisk (view s))(b := vcontent (view s) b),
        vtrace := vtrace (view s) @ [(b, vcontent (view s) b)]\<rparr>"
    and rel: "inv s \<Longrightarrow> handle s i b \<Longrightarrow>
      1 < vrefs (view s) b \<or> vcontent (view s) b = vdisk (view s) b \<Longrightarrow>
      \<exists>s'. brelse i s = Inr s' \<and> inv s' \<and> ext s' = ext s \<and>
      (\<forall>j c. handle s j c \<and> c \<noteq> b \<longrightarrow> handle s' j c) \<and>
      view s' = (view s)\<lparr>vrefs := (vrefs (view s))(b := vrefs (view s) b - 1),
        vheld := (vheld (view s))(b := False)\<rparr>"
begin

text \<open>Reading a block and releasing it leaves no trace.\<close>

lemma read_release:
  assumes "inv s" and "bread b s = Inr (i, t)" and "vrefs (view s) b + 1 < 2 ^ 32"
    and "vrefs (view s) b \<noteq> 0 \<or> vcontent (view s) b = vdisk (view s) b"
  shows "get_data i t = vcontent (view s) b \<and>
    (\<exists>u. brelse i t = Inr u \<and> inv u \<and> ext u = ext s \<and> view u = view s \<and>
      (\<forall>j c. handle s j c \<longrightarrow> handle u j c))"
proof -
  have t: "inv t" "handle t i b" "\<not> vheld (view s) b" "ext t = ext s"
    "view t = (view s)\<lparr>vrefs := (vrefs (view s))(b := Suc (vrefs (view s) b)),
       vheld := (vheld (view s))(b := True)\<rparr>"
    "\<forall>j c. handle s j c \<longrightarrow> handle t j c \<and> c \<noteq> b"
    using rd [OF assms(1-3)] by auto
  have "1 < vrefs (view t) b \<or> vcontent (view t) b = vdisk (view t) b"
    using assms(4) t(5) by auto
  then obtain u where u: "brelse i t = Inr u" "inv u" "ext u = ext t"
      "\<forall>j c. handle t j c \<and> c \<noteq> b \<longrightarrow> handle u j c"
      "view u = (view t)\<lparr>vrefs := (vrefs (view t))(b := vrefs (view t) b - 1),
        vheld := (vheld (view t))(b := False)\<rparr>"
    using rel [OF t(1,2)] by blast
  have "(vheld (view s))(b := False) = vheld (view s)" using t(3) by (intro fun_upd_idem) simp
  then have "view u = view s" using u(5) t(5) by simp
  moreover have "get_data i t = vcontent (view s) b" using gt [OF t(1,2)] t(5) by simp
  ultimately show ?thesis using u t(4,6) by auto
qed

text \<open>Changing the contents of a held block and writing it.\<close>

lemma put_write:
  assumes "inv s" and "handle s i b"
  shows "\<exists>w. bwrite i (set_data i d s) = Inr w \<and> inv w \<and> ext w = ext s \<and>
    (\<forall>j c. handle s j c \<longrightarrow> handle w j c) \<and>
    view w = (view s)\<lparr>vcontent := (vcontent (view s))(b := d), vdisk := (vdisk (view s))(b := d),
      vtrace := vtrace (view s) @ [(b, d)]\<rparr>"
proof -
  let ?t = "set_data i d s"
  have t: "inv ?t" "ext ?t = ext s" "\<forall>j c. handle s j c \<longrightarrow> handle ?t j c"
    "view ?t = (view s)\<lparr>vcontent := (vcontent (view s))(b := d)\<rparr>"
    using st [OF assms] by auto
  then have "handle ?t i b" using assms(2) by blast
  from wr [OF t(1) this] obtain w where w: "bwrite i ?t = Inr w" "inv w" "ext w = ext ?t"
      "\<forall>j c. handle ?t j c \<longrightarrow> handle w j c"
      "view w = (view ?t)\<lparr>vdisk := (vdisk (view ?t))(b := vcontent (view ?t) b),
        vtrace := vtrace (view ?t) @ [(b, vcontent (view ?t) b)]\<rparr>"
    by blast
  then show ?thesis using t by auto
qed

text \<open>Two blocks held at once.\<close>

lemma read_two:
  assumes "inv s" and "\<not> vheld (view s) a" and "\<not> vheld (view s) b" and "a \<noteq> b"
    and "vrefs (view s) a + 1 < 2 ^ 32" and "vrefs (view s) b + 1 < 2 ^ 32"
    and "card {c. vrefs (view s) c \<noteq> 0} < NBUF"
    and "vrefs (view s) b \<noteq> 0 \<or> card {c. vrefs (view s) c \<noteq> 0} + 1 < NBUF"
  shows "\<exists>i t j u. bread a s = Inr (i, t) \<and> ext t = ext s \<and> bread b t = Inr (j, u) \<and> inv u \<and> ext u = ext s \<and>
    handle u i a \<and> handle u j b \<and>
    view u = (view s)\<lparr>vrefs := (vrefs (view s))(a := Suc (vrefs (view s) a), b := Suc (vrefs (view s) b)),
      vheld := (vheld (view s))(a := True, b := True)\<rparr>"
proof -
  obtain i t where a: "bread a s = Inr (i, t)" using rd_total [OF assms(1,2)] assms(7) by blast
  have t: "inv t" "handle t i a" "ext t = ext s"
    "view t = (view s)\<lparr>vrefs := (vrefs (view s))(a := Suc (vrefs (view s) a)),
       vheld := (vheld (view s))(a := True)\<rparr>"
    using rd [OF assms(1) a assms(5)] by auto
  have "{c. vrefs (view t) c \<noteq> 0} \<subseteq> insert a {c. vrefs (view s) c \<noteq> 0}" using t(4) by auto
  then have "card {c. vrefs (view t) c \<noteq> 0} \<le> card (insert a {c. vrefs (view s) c \<noteq> 0})"
    by (intro card_mono) simp_all
  also have "\<dots> \<le> Suc (card {c. vrefs (view s) c \<noteq> 0})" by (rule card_insert_le_m1) simp_all
  finally have le: "card {c. vrefs (view t) c \<noteq> 0} \<le> Suc (card {c. vrefs (view s) c \<noteq> 0})" .
  have "vrefs (view t) b = vrefs (view s) b" using assms(4) t(4) by simp
  then have "vrefs (view t) b \<noteq> 0 \<or> card {c. vrefs (view t) c \<noteq> 0} < NBUF"
    using assms(8) le by linarith
  moreover have "\<not> vheld (view t) b" using assms(3,4) t(4) by simp
  ultimately obtain j u where b: "bread b t = Inr (j, u)" using rd_total [OF t(1)] by blast
  have "vrefs (view t) b + 1 < 2 ^ 32" using assms(4,6) t(4) by simp
  from rd [OF t(1) b this] show ?thesis using a b t assms(4) by auto
qed

text \<open>Reading a block, changing it, writing it and releasing it.\<close>

lemma read_modify_write:
  assumes "inv s" and "bread b s = Inr (i, t)" and "vrefs (view s) b + 1 < 2 ^ 32"
  shows "get_data i t = vcontent (view s) b \<and>
    (\<exists>u w. bwrite i (set_data i d t) = Inr u \<and> brelse i u = Inr w \<and> inv w \<and> ext w = ext s \<and>
      (\<forall>j c. handle s j c \<longrightarrow> handle w j c) \<and>
      view w = (view s)\<lparr>vcontent := (vcontent (view s))(b := d), vdisk := (vdisk (view s))(b := d),
        vtrace := vtrace (view s) @ [(b, d)]\<rparr>)"
proof -
  have t: "inv t" "handle t i b" "\<not> vheld (view s) b" "ext t = ext s"
    "view t = (view s)\<lparr>vrefs := (vrefs (view s))(b := Suc (vrefs (view s) b)),
       vheld := (vheld (view s))(b := True)\<rparr>"
    "\<forall>j c. handle s j c \<longrightarrow> handle t j c \<and> c \<noteq> b"
    using rd [OF assms] by auto
  obtain u where u: "bwrite i (set_data i d t) = Inr u" "inv u" "ext u = ext t" "\<forall>j c. handle t j c \<longrightarrow> handle u j c"
      "view u = (view t)\<lparr>vcontent := (vcontent (view t))(b := d), vdisk := (vdisk (view t))(b := d),
        vtrace := vtrace (view t) @ [(b, d)]\<rparr>"
    using put_write [OF t(1,2)] by blast
  have hu: "handle u i b" using u(4) t(2) by blast
  have "vcontent (view u) b = vdisk (view u) b" by (simp add: u(5))
  then obtain w where w: "brelse i u = Inr w" "inv w" "ext w = ext u"
      "\<forall>j c. handle u j c \<and> c \<noteq> b \<longrightarrow> handle w j c"
      "view w = (view u)\<lparr>vrefs := (vrefs (view u))(b := vrefs (view u) b - 1),
        vheld := (vheld (view u))(b := False)\<rparr>"
    using rel [OF u(2) hu] by blast
  have "(vheld (view s))(b := False) = vheld (view s)" using t(3) by (intro fun_upd_idem) simp
  then have "view w = (view s)\<lparr>vcontent := (vcontent (view s))(b := d), vdisk := (vdisk (view s))(b := d),
        vtrace := vtrace (view s) @ [(b, d)]\<rparr>"
    using w(5) u(5) t(5) by simp
  moreover have "get_data i t = vcontent (view s) b" using gt [OF t(1,2)] t(5) by simp
  moreover have "\<forall>j c. handle s j c \<longrightarrow> handle w j c" using t(6) u(4) w(4) by blast
  ultimately show ?thesis using u(1) w(1,2,3) u(3) t(4) by auto
qed

end

definition get_data :: "nat \<Rightarrow> 'z bst \<Rightarrow> block" where
  "get_data i s = b_data (buf s i)"

interpretation bc: block_cache bio_inv bview bio_ext handle "bread ROOTDEV" set_data get_data bwrite brelse
proof (unfold_locales, goal_cases)
  case (1 s b i s')
  then show ?case unfolding bview_simps by (rule bread_law)
next
  case (2 s b)
  then show ?case unfolding bview_simps by (rule bread_total)
next
  case (3 s i b)
  then show ?case using handle_refs(3) [of s i b] by (simp add: get_data_def)
next
  case (4 s i b d)
  then show ?case unfolding bview_simps by (rule set_data_law)
next
  case (5 s i b)
  then show ?case unfolding bview_simps by (rule bwrite_law)
next
  case (6 s i b)
  then show ?case unfolding bview_simps by (rule brelse_law)
qed

end
