(* ===== verification/Log.thy ===== *)
theory Log
  imports BufCache
begin

text \<open>
  kernel/log.c, the write-ahead log.  The in-memory header and counters are fields of the
  state; the header block on disk is read and written byte by byte.  \<open>begin_op\<close> sleeps
  while the log is full or being committed; the source's loop tests again on wakeup.
\<close>

section \<open>State and operations\<close>

record log_state = bio_state +
  log_start :: u32
  log_size :: int
  outstanding :: int
  committing :: bool
  log_dev :: u32
  lh_n :: int
  lh_block :: "nat \<Rightarrow> u32"

type_synonym 'z lst = "'z log_state_scheme"

text \<open>The fields of \<open>struct logheader\<close> in the header block.\<close>

definition hdr_n :: "block \<Rightarrow> int" where
  "hdr_n d = sint (load32 d 0)"

definition hdr_block :: "block \<Rightarrow> nat \<Rightarrow> u32" where
  "hdr_block d i = load32 d (4 + 4 * i)"

definition put_head :: "int \<Rightarrow> (nat \<Rightarrow> u32) \<Rightarrow> block \<Rightarrow> block" where
  "put_head n bl d = fold (\<lambda>i d. store32 d (4 + 4 * i) (bl i)) [0..<nat n] (store32 d 0 (word_of_int n))"

definition log_block :: "u32 \<Rightarrow> nat \<Rightarrow> u32" where
  "log_block start tail = start + word_of_nat tail + 1"

definition install_one :: "bool \<Rightarrow> nat \<Rightarrow> 'z lst \<Rightarrow> 'z lst stop + 'z lst" where
  "install_one recovering tail s =
     bindE (bread (log_dev s) (log_block (log_start s) tail) s) (\<lambda>(lbuf, s).
     bindE (bread (log_dev s) (lh_block s tail) s) (\<lambda>(dbuf, s).
     bindE (bwrite dbuf (set_data dbuf (get_data lbuf s) s)) (\<lambda>s.
     let s = (if recovering then s else bunpin dbuf s) in
     bindE (brelse lbuf s) (\<lambda>s. brelse dbuf s))))"

definition install_trans :: "bool \<Rightarrow> 'z lst \<Rightarrow> 'z lst stop + 'z lst" where
  "install_trans recovering s = foldE (install_one recovering) [0..<nat (lh_n s)] s"

text \<open>
  \<open>read_head\<close> trusts the count it finds on disk; a count beyond LOGSIZE would write past
  the array \<open>log.lh.block\<close>.
\<close>

definition read_head :: "'z lst \<Rightarrow> 'z lst stop + 'z lst" where
  "read_head s =
     bindE (bread (log_dev s) (log_start s) s) (\<lambda>(b, s).
     let d = get_data b s in
     if hdr_n d > LOGSIZE then Inl (Fault ''read_head: log.lh.block'')
     else brelse b (s\<lparr>lh_n := hdr_n d,
       lh_block := (\<lambda>i. if int i < hdr_n d then hdr_block d i else lh_block s i)\<rparr>))"

definition write_head :: "'z lst \<Rightarrow> 'z lst stop + 'z lst" where
  "write_head s =
     bindE (bread (log_dev s) (log_start s) s) (\<lambda>(b, s).
     bindE (bwrite b (set_data b (put_head (lh_n s) (lh_block s) (get_data b s)) s)) (\<lambda>s.
     brelse b s))"

definition recover_from_log :: "'z lst \<Rightarrow> 'z lst stop + 'z lst" where
  "recover_from_log s =
     bindE (read_head s) (\<lambda>s.
     bindE (install_trans True s) (\<lambda>s.
     write_head (s\<lparr>lh_n := 0\<rparr>)))"

definition initlog :: "u32 \<Rightarrow> u32 \<Rightarrow> u32 \<Rightarrow> 'z lst \<Rightarrow> 'z lst stop + 'z lst" where
  "initlog dev logstart nlog s =
     recover_from_log (s\<lparr>log_start := logstart, log_size := sint nlog, log_dev := dev\<rparr>)"

definition begin_op :: "'z lst \<Rightarrow> 'z lst stop + 'z lst" where
  "begin_op s =
     (if committing s then sleep ChanLog s
      else if lh_n s + (outstanding s + 1) * MAXOPBLOCKS > LOGSIZE then sleep ChanLog s
      else Inr (s\<lparr>outstanding := outstanding s + 1\<rparr>))"

definition write_log_one :: "nat \<Rightarrow> 'z lst \<Rightarrow> 'z lst stop + 'z lst" where
  "write_log_one tail s =
     bindE (bread (log_dev s) (log_block (log_start s) tail) s) (\<lambda>(dst, s).
     bindE (bread (log_dev s) (lh_block s tail) s) (\<lambda>(src, s).
     bindE (bwrite dst (set_data dst (get_data src s) s)) (\<lambda>s.
     bindE (brelse src s) (\<lambda>s. brelse dst s))))"

definition write_log :: "'z lst \<Rightarrow> 'z lst stop + 'z lst" where
  "write_log s = foldE write_log_one [0..<nat (lh_n s)] s"

definition commit :: "'z lst \<Rightarrow> 'z lst stop + 'z lst" where
  "commit s =
     (if lh_n s > 0
      then bindE (write_log s) (\<lambda>s.
           bindE (write_head s) (\<lambda>s.
           bindE (install_trans False s) (\<lambda>s.
           write_head (s\<lparr>lh_n := 0\<rparr>))))
      else Inr s)"

definition end_op :: "'z lst \<Rightarrow> 'z lst stop + 'z lst" where
  "end_op s =
     (let s = s\<lparr>outstanding := outstanding s - 1\<rparr> in
      if committing s then Inl (Panic ''log.committing'')
      else if outstanding s = 0
      then bindE (commit (s\<lparr>committing := True\<rparr>)) (\<lambda>s.
           Inr (wakeup (Some ChanLog) (s\<lparr>committing := False\<rparr>)))
      else Inr (wakeup (Some ChanLog) s))"

definition log_write :: "nat \<Rightarrow> 'z lst \<Rightarrow> 'z lst stop + 'z lst" where
  "log_write b s =
     (if lh_n s \<ge> LOGSIZE \<or> lh_n s \<ge> log_size s - 1 then Inl (Panic ''too big a transaction'')
      else if outstanding s < 1 then Inl (Panic ''log_write outside of trans'')
      else let n = nat (lh_n s);
               i = (case first_index (\<lambda>i. lh_block s i = b_blockno (buf s b)) n of Some i \<Rightarrow> i | None \<Rightarrow> n);
               s = s\<lparr>lh_block := (lh_block s)(i := b_blockno (buf s b))\<rparr> in
        if i = n then Inr ((bpin b s)\<lparr>lh_n := lh_n s + 1\<rparr>) else Inr s)"

section \<open>The header block\<close>

lemma put_head_block:
  assumes "i < n"
  shows "hdr_block (fold (\<lambda>i d. store32 d (4 + 4 * i) (bl i)) [0..<n] d) i = bl i"
  using assms
proof (induction n)
  case 0
  then show ?case by simp
next
  case (Suc n)
  then show ?case
    by (cases "i = n") (simp_all add: hdr_block_def load32_store32_other)
qed

lemma put_head_n: "load32 (fold (\<lambda>i d. store32 d (4 + 4 * i) (bl i)) [0..<n] d) 0 = load32 d 0"
  by (induction n) (simp_all add: load32_store32_other)

lemma sint_small: "0 \<le> n \<Longrightarrow> n \<le> LOGSIZE \<Longrightarrow> sint (word_of_int n :: u32) = n"
  by (simp add: sint_u32 uint_word_of_int)

lemma hdr_put_head:
  assumes "0 \<le> n" and "n \<le> LOGSIZE"
  shows "hdr_n (put_head n bl d) = n" and "int i < n \<Longrightarrow> hdr_block (put_head n bl d) i = bl i"
  using assms put_head_block [of i "nat n" bl]
  by (auto simp: hdr_n_def put_head_def put_head_n sint_small)

section \<open>Sequences of disk writes\<close>

definition apply_writes :: "('a \<times> 'b) list \<Rightarrow> ('a \<Rightarrow> 'b) \<Rightarrow> 'a \<Rightarrow> 'b" where
  "apply_writes ws f = fold (\<lambda>(b, d) f. f(b := d)) ws f"

lemma apply_writes_simps [simp]:
  "apply_writes [] f = f" "apply_writes ((b, d) # ws) f = apply_writes ws (f(b := d))"
  "apply_writes (ws @ vs) f = apply_writes vs (apply_writes ws f)"
  by (simp_all add: apply_writes_def)

lemma apply_writes_other: "b \<notin> fst ` set ws \<Longrightarrow> apply_writes ws f b = f b"
  by (induction ws arbitrary: f) auto

lemma apply_writes_map:
  assumes "inj_on a (set xs)" and "x \<in> set xs"
  shows "apply_writes (map (\<lambda>x. (a x, v x)) xs) f (a x) = v x"
  using assms
proof (induction xs arbitrary: f)
  case (Cons y ys)
  show ?case
  proof (cases "x \<in> set ys")
    case True
    then show ?thesis using Cons by simp
  next
    case False
    then have "x = y" using Cons.prems by simp
    have "a y \<notin> a ` set ys" using Cons.prems False \<open>x = y\<close> by (auto simp: inj_on_def)
    then show ?thesis using \<open>x = y\<close> by (simp add: apply_writes_other image_image)
  qed
qed simp

section \<open>Installing and logging blocks through the cache\<close>

text \<open>The cache after a sequence of writes, apart from its reference counts.\<close>

definition wrote :: "'z lst \<Rightarrow> 'z lst \<Rightarrow> (u32 \<times> block) list \<Rightarrow> bool" where
  "wrote s s' ws \<longleftrightarrow> bio_inv s' \<and> bio_ext s' = bio_ext s \<and>
     bview s' = (bview s)\<lparr>vcontent := apply_writes ws (content s), vdisk := apply_writes ws (disk s),
       vtrace := dwrites s @ ws, vrefs := refs s'\<rparr>"

lemma log_fields:
  fixes s s' :: "'z lst"
  assumes "bio_ext s' = bio_ext s"
  shows "log_start s' = log_start s" "log_dev s' = log_dev s" "lh_n s' = lh_n s" "lh_block s' = lh_block s"
    "outstanding s' = outstanding s" "committing s' = committing s" "log_size s' = log_size s"
    "log_state.more s' = log_state.more s" "myproc s' = myproc s"
proof -
  have m: "bio_state.more s' = bio_state.more s" "myproc s' = myproc s" using assms by (simp_all add: bio_ext_def)
  then show "log_start s' = log_start s" "log_dev s' = log_dev s" "lh_n s' = lh_n s" "lh_block s' = lh_block s"
    "outstanding s' = outstanding s" "committing s' = committing s" "log_size s' = log_size s"
    "log_state.more s' = log_state.more s" "myproc s' = myproc s"
    by (cases s; cases s'; simp)+
qed

lemma wrote_views:
  assumes "wrote s s' ws"
  shows "bio_inv s'" "bio_ext s' = bio_ext s" "content s' = apply_writes ws (content s)"
    "disk s' = apply_writes ws (disk s)" "dwrites s' = dwrites s @ ws" "held s' = held s"
proof -
  show "bio_inv s'" "bio_ext s' = bio_ext s" using assms by (simp_all add: wrote_def)
  have v: "bview s' = (bview s)\<lparr>vcontent := apply_writes ws (content s), vdisk := apply_writes ws (disk s),
       vtrace := dwrites s @ ws, vrefs := refs s'\<rparr>" using assms by (simp add: wrote_def)
  show "content s' = apply_writes ws (content s)" using arg_cong [OF v, of vcontent] by simp
  show "disk s' = apply_writes ws (disk s)" using arg_cong [OF v, of vdisk] by simp
  show "dwrites s' = dwrites s @ ws" using arg_cong [OF v, of vtrace] by simp
  show "held s' = held s" using arg_cong [OF v, of vheld] by simp
qed

lemma wroteI:
  assumes "bio_inv s'" "bio_ext s' = bio_ext s" "content s' = apply_writes ws (content s)"
    "disk s' = apply_writes ws (disk s)" "dwrites s' = dwrites s @ ws" "held s' = held s"
  shows "wrote s s' ws"
  using assms by (simp add: wrote_def bview_def)

lemma wrote_trans:
  assumes "wrote s t ws" and "wrote t u vs"
  shows "wrote s u (ws @ vs)"
  by (rule wroteI) (simp_all add: wrote_views [OF assms(1)] wrote_views [OF assms(2)])

lemma wrote_refl: "bio_inv s \<Longrightarrow> wrote s s []"
  by (rule wroteI) simp_all

lemma view_eqD:
  assumes "bview w = v"
  shows "content w = vcontent v" "disk w = vdisk v" "dwrites w = vtrace v" "refs w = vrefs v" "held w = vheld v"
  using assms by (auto simp: bview_def)

lemma write_log_one_law:
  assumes inv: "bio_inv s" and dev: "log_dev s = ROOTDEV"
    and a: "a = log_block (log_start s) k" and b: "b = lh_block s k" and ab: "a \<noteq> b"
    and nh: "\<not> held s a" "\<not> held s b" and small: "refs s a + 1 < 2 ^ 32" "refs s b + 1 < 2 ^ 32"
    and pin: "refs s b \<noteq> 0" and room: "card {c. refs s c \<noteq> 0} < NBUF"
  shows "\<exists>s'. write_log_one k s = Inr s' \<and> wrote s s' [(a, content s b)] \<and> refs s' = refs s"
proof -
  obtain i t j u where rd: "bread ROOTDEV a s = Inr (i, t)" "bio_ext t = bio_ext s" "bread ROOTDEV b t = Inr (j, u)"
    and u: "bio_inv u" "bio_ext u = bio_ext s" "handle u i a" "handle u j b"
      "bview u = (bview s)\<lparr>vrefs := (refs s)(a := Suc (refs s a), b := Suc (refs s b)),
        vheld := (held s)(a := True, b := True)\<rparr>"
    using bc.read_two [OF inv, of a b] nh ab small pin room unfolding bview_simps by blast
  note uv = view_eqD [OF u(5), simplified]
  have g: "get_data j u = content s b" using bc.gt [OF u(1,4)] uv by simp
  obtain w where w: "bwrite i (set_data i (content s b) u) = Inr w" "bio_inv w" "bio_ext w = bio_ext u"
      "\<forall>j c. handle u j c \<longrightarrow> handle w j c"
      "bview w = (bview u)\<lparr>vcontent := (content u)(a := content s b), vdisk := (disk u)(a := content s b),
        vtrace := dwrites u @ [(a, content s b)]\<rparr>"
    using bc.put_write [OF u(1,3), of "content s b"] unfolding bview_simps by blast
  note wv = view_eqD [OF w(5), simplified]
  have "1 < refs w b" using wv uv pin ab by simp
  then obtain x where x: "brelse j w = Inr x" "bio_inv x" "bio_ext x = bio_ext w"
      "\<forall>j c. handle w j c \<and> c \<noteq> b \<longrightarrow> handle x j c"
      "bview x = (bview w)\<lparr>vrefs := (refs w)(b := refs w b - 1), vheld := (held w)(b := False)\<rparr>"
    using brelse_law [OF w(2), of j b] w(4) u(4) by blast
  note xv = view_eqD [OF x(5), simplified]
  have "handle x i a" using w(4) x(4) u(3) ab by blast
  moreover have "content x a = disk x a" by (simp add: xv wv)
  ultimately obtain y where y: "brelse i x = Inr y" "bio_inv y" "bio_ext y = bio_ext x"
      "bview y = (bview x)\<lparr>vrefs := (refs x)(a := refs x a - 1), vheld := (held x)(a := False)\<rparr>"
    using brelse_law [OF x(2), of i a] by blast
  note yv = view_eqD [OF y(4), simplified]
  have "write_log_one k s = Inr y"
    using rd w x y g dev log_fields [OF rd(2)] by (simp add: write_log_one_def a b)
  moreover have "refs y = refs s" using ab by (auto simp: fun_eq_iff yv xv wv uv)
  moreover have "wrote s y [(a, content s b)]"
    by (rule wroteI) (use y(2,3) x(3) w(3) u(2) nh ab in \<open>auto simp: yv xv wv uv fun_eq_iff\<close>)
  ultimately show ?thesis by blast
qed

lemma install_one_law:
  assumes inv: "bio_inv s" and dev: "log_dev s = ROOTDEV"
    and a: "a = log_block (log_start s) k" and b: "b = lh_block s k" and ab: "a \<noteq> b"
    and nh: "\<not> held s a" "\<not> held s b" and small: "refs s a + 1 < 2 ^ 32" "refs s b + 1 < 2 ^ 32"
    and room: "card {c. refs s c \<noteq> 0} < NBUF"
    and room2: "refs s b \<noteq> 0 \<or> recovering \<and> card {c. refs s c \<noteq> 0} + 1 < NBUF"
  shows "\<exists>s'. install_one recovering k s = Inr s' \<and> wrote s s' [(b, content s a)] \<and>
    refs s' = (if recovering then refs s else (refs s)(b := refs s b - 1))"
proof -
  obtain i t j u where rd: "bread ROOTDEV a s = Inr (i, t)" "bio_ext t = bio_ext s" "bread ROOTDEV b t = Inr (j, u)"
    and u: "bio_inv u" "bio_ext u = bio_ext s" "handle u i a" "handle u j b"
      "bview u = (bview s)\<lparr>vrefs := (refs s)(a := Suc (refs s a), b := Suc (refs s b)),
        vheld := (held s)(a := True, b := True)\<rparr>"
    using bc.read_two [OF inv, of a b] nh ab small room room2 unfolding bview_simps by blast
  note uv = view_eqD [OF u(5), simplified]
  have g: "get_data i u = content s a" using bc.gt [OF u(1,3)] uv by simp
  obtain w where w: "bwrite j (set_data j (content s a) u) = Inr w" "bio_inv w" "bio_ext w = bio_ext u"
      "\<forall>j c. handle u j c \<longrightarrow> handle w j c"
      "bview w = (bview u)\<lparr>vcontent := (content u)(b := content s a), vdisk := (disk u)(b := content s a),
        vtrace := dwrites u @ [(b, content s a)]\<rparr>"
    using bc.put_write [OF u(1,4), of "content s a"] unfolding bview_simps by blast
  note wv = view_eqD [OF w(5), simplified]
  define w' where "w' = (if recovering then w else bunpin j w)"
  define r' where "r' = (if recovering then refs w else (refs w)(b := refs w b - 1))"
  have hw: "handle w i a" "handle w j b" using w(4) u(3,4) by blast+
  have w': "bio_inv w'" "bio_ext w' = bio_ext w" "\<forall>j c. handle w j c \<longrightarrow> handle w' j c"
    "bview w' = (bview w)\<lparr>vrefs := r'\<rparr>"
  proof -
    have "1 < refs w b" if "\<not> recovering" using that room2 wv uv by auto
    then show "bio_inv w'" "bio_ext w' = bio_ext w" "\<forall>j c. handle w j c \<longrightarrow> handle w' j c"
      "bview w' = (bview w)\<lparr>vrefs := r'\<rparr>"
      using bunpin_law [OF w(2) hw(2)] w(2) by (auto simp: w'_def r'_def bview_def)
  qed
  note w'v = view_eqD [OF w'(4), simplified]
  have hw': "handle w' i a" "handle w' j b" using hw w'(3) by blast+
  have "1 < refs w' a \<or> content w' a = disk w' a"
  proof (cases "refs s a = 0")
    case True
    have "content s a = disk s a" using True by (rule clean_unreferenced [OF inv])
    then show ?thesis using ab by (simp add: w'v wv uv)
  next
    case False
    then show ?thesis using ab by (simp add: w'v r'_def wv uv)
  qed
  then obtain x where x: "brelse i w' = Inr x" "bio_inv x" "bio_ext x = bio_ext w'"
      "\<forall>j c. handle w' j c \<and> c \<noteq> a \<longrightarrow> handle x j c"
      "bview x = (bview w')\<lparr>vrefs := (refs w')(a := refs w' a - 1), vheld := (held w')(a := False)\<rparr>"
    using brelse_law [OF w'(1) hw'(1)] by blast
  note xv = view_eqD [OF x(5), simplified]
  have "handle x j b" using x(4) hw' ab by blast
  moreover have "content x b = disk x b" by (simp add: xv w'v wv)
  ultimately obtain y where y: "brelse j x = Inr y" "bio_inv y" "bio_ext y = bio_ext x"
      "bview y = (bview x)\<lparr>vrefs := (refs x)(b := refs x b - 1), vheld := (held x)(b := False)\<rparr>"
    using brelse_law [OF x(2), of j b] by blast
  note yv = view_eqD [OF y(4), simplified]
  have "install_one recovering k s = Inr y"
    using rd w x y g dev log_fields [OF rd(2)]
    by (simp add: install_one_def a b Let_def flip: w'_def)
  moreover have "refs y = (if recovering then refs s else (refs s)(b := refs s b - 1))"
    using ab by (auto simp: fun_eq_iff yv xv w'v r'_def wv uv)
  moreover have "wrote s y [(b, content s a)]"
    by (rule wroteI) (use y(2,3) x(3) w'(2) w(3) u(2) nh ab in \<open>auto simp: yv xv w'v wv uv fun_eq_iff\<close>)
  ultimately show ?thesis by blast
qed

lemma write_head_law:
  assumes inv: "bio_inv s" and dev: "log_dev s = ROOTDEV" and nh: "\<not> held s (log_start s)"
    and small: "refs s (log_start s) + 1 < 2 ^ 32" and room: "card {c. refs s c \<noteq> 0} < NBUF"
  shows "\<exists>s'. write_head s = Inr s' \<and>
    wrote s s' [(log_start s, put_head (lh_n s) (lh_block s) (content s (log_start s)))] \<and> refs s' = refs s"
proof -
  let ?b = "log_start s"
  obtain i t where rd: "bread ROOTDEV ?b s = Inr (i, t)"
    using bread_total [OF inv nh] room by blast
  have t: "bio_ext t = bio_ext s" using bread_law [OF inv rd] small by blast
  note lf = log_fields [OF t]
  let ?d = "put_head (lh_n s) (lh_block s) (content s ?b)"
  obtain u w where uw: "get_data i t = content s ?b" "bwrite i (set_data i ?d t) = Inr u" "brelse i u = Inr w"
      "bio_inv w" "bio_ext w = bio_ext s"
      "bview w = (bview s)\<lparr>vcontent := (content s)(?b := ?d), vdisk := (disk s)(?b := ?d),
        vtrace := dwrites s @ [(?b, ?d)]\<rparr>"
    using bc.read_modify_write [OF inv rd, of ?d] small unfolding bview_simps by blast
  note wv = view_eqD [OF uw(6), simplified]
  have "write_head s = Inr w" using rd uw(1-3) dev by (simp add: write_head_def lf)
  moreover have "wrote s w [(?b, ?d)]" by (rule wroteI) (simp_all add: wv uw(4,5))
  ultimately show ?thesis using wv by auto
qed

section \<open>Commit and recovery\<close>

text \<open>
  The blocks of the log on disk, and the conditions under which a transaction is committed:
  a consistent header whose home blocks are distinct and outside the log, and no locked
  buffer.
\<close>

definition log_area :: "u32 \<Rightarrow> nat \<Rightarrow> u32 set" where
  "log_area start m = insert start (log_block start ` {..<m})"

text \<open>The number of data blocks the log can hold: \<open>log_write\<close> keeps \<open>lh.n\<close> within it.\<close>

definition log_slots :: "'z lst \<Rightarrow> nat" where
  "log_slots s = min LOGSIZE (nat (log_size s - 1))"

definition log_quiet :: "'z lst \<Rightarrow> bool" where
  "log_quiet s \<longleftrightarrow> bio_inv s \<and> log_dev s = ROOTDEV \<and> unat (log_start s) + LOGSIZE + 1 < 2 ^ 32 \<and>
     (\<forall>b. \<not> held s b \<and> refs s b + 2 < 2 ^ 32)"

lemma log_quietD:
  assumes "log_quiet s"
  shows "bio_inv s" "log_dev s = ROOTDEV" "\<not> held s b" "refs s b + 1 < 2 ^ 32"
    "unat (log_start s) + LOGSIZE + 1 < 2 ^ 32"
proof -
  have "refs s b + 2 < 2 ^ 32" "\<not> held s b" using assms unfolding log_quiet_def by blast+
  then show "refs s b + 1 < 2 ^ 32" "\<not> held s b" by linarith+
qed (use assms in \<open>simp_all add: log_quiet_def\<close>)

definition lh_ok :: "'z lst \<Rightarrow> bool" where
  "lh_ok s \<longleftrightarrow> 0 \<le> lh_n s \<and> nat (lh_n s) \<le> log_slots s \<and> inj_on (lh_block s) {..<nat (lh_n s)} \<and>
     (\<forall>k<nat (lh_n s). lh_block s k \<notin> log_area (log_start s) (log_slots s))"

lemma lh_ok_n: "lh_ok s \<Longrightarrow> nat (lh_n s) \<le> LOGSIZE" "lh_ok s \<Longrightarrow> lh_n s \<le> LOGSIZE" "lh_ok s \<Longrightarrow> 0 \<le> lh_n s"
  unfolding lh_ok_def log_slots_def by linarith+

definition home_writes :: "'z lst \<Rightarrow> nat \<Rightarrow> (u32 \<Rightarrow> block) \<Rightarrow> (u32 \<times> block) list" where
  "home_writes s n c = map (\<lambda>k. (lh_block s k, c (log_block (log_start s) k))) [0..<n]"

definition log_writes :: "'z lst \<Rightarrow> nat \<Rightarrow> (u32 \<times> block) list" where
  "log_writes s n = map (\<lambda>k. (log_block (log_start s) k, content s (lh_block s k))) [0..<n]"

lemma unat_log_block:
  "unat start + LOGSIZE + 1 < 2 ^ 32 \<Longrightarrow> k < LOGSIZE \<Longrightarrow> unat (log_block start k) = unat start + k + 1"
  by (simp add: log_block_def unat_word_ariths unat_of_nat)

lemma log_block_inj:
  assumes "unat start + LOGSIZE + 1 < 2 ^ 32"
  shows "inj_on (log_block start) {..<LOGSIZE}"
proof (rule inj_onI)
  fix x y assume xy: "x \<in> {..<LOGSIZE}" "y \<in> {..<LOGSIZE}" "log_block start x = log_block start y"
  then have "unat (log_block start x) = unat (log_block start y)" by simp
  then show "x = y" using xy(1,2) unat_log_block [OF assms] by simp
qed

lemma log_block_not_start: "unat start + LOGSIZE + 1 < 2 ^ 32 \<Longrightarrow> k < LOGSIZE \<Longrightarrow> log_block start k \<noteq> start"
  using unat_log_block [of start k] by auto

lemma log_block_area: "k < m \<Longrightarrow> log_block start k \<in> log_area start m"
  by (simp add: log_area_def)

lemma lh_ok_home:
  assumes "lh_ok s" and "k < nat (lh_n s)"
  shows "lh_block s k \<noteq> log_start s" and "j < nat (lh_n s) \<Longrightarrow> log_block (log_start s) j \<noteq> lh_block s k"
    and "k < LOGSIZE"
proof -
  have na: "lh_block s k \<notin> log_area (log_start s) (log_slots s)" using assms by (simp add: lh_ok_def)
  then show "lh_block s k \<noteq> log_start s" by (simp add: log_area_def)
  show "j < nat (lh_n s) \<Longrightarrow> log_block (log_start s) j \<noteq> lh_block s k"
    using na log_block_area [of j "log_slots s" "log_start s"] assms(1) unfolding lh_ok_def by fastforce
  show "k < LOGSIZE" using assms lh_ok_n(1) by fastforce
qed

lemma write_log_loop:
  assumes q: "log_quiet s" and lh: "lh_ok s" and m: "m \<le> nat (lh_n s)"
    and pin: "\<forall>k<nat (lh_n s). refs s (lh_block s k) \<noteq> 0" and room: "card {c. refs s c \<noteq> 0} < NBUF"
  shows "\<exists>t. foldE write_log_one [0..<m] s = Inr t \<and> wrote s t (log_writes s m) \<and> refs t = refs s"
  using m
proof (induction m)
  case 0
  then show ?case using q by (auto simp: log_writes_def log_quiet_def intro: wrote_refl)
next
  case (Suc m)
  then obtain t where t: "foldE write_log_one [0..<m] s = Inr t" "wrote s t (log_writes s m)" "refs t = refs s"
    by auto
  note tv = wrote_views [OF t(2)] and lf = log_fields [OF wrote_views(2) [OF t(2)]]
  let ?a = "log_block (log_start s) m" and ?b = "lh_block s m"
  have mn: "m < nat (lh_n s)" using Suc.prems by simp
  note home = lh_ok_home [OF lh mn]
  have "log_block (log_start s) k \<noteq> ?b" if "k < m" for k
    using home(2) [of k] mn that by simp
  then have "?b \<notin> fst ` set (log_writes s m)" by (force simp: log_writes_def)
  then have cb: "content t ?b = content s ?b" by (simp add: tv apply_writes_other)
  have "\<exists>u. write_log_one m t = Inr u \<and> wrote t u [(?a, content t ?b)] \<and> refs u = refs t"
    using tv(1) by (rule write_log_one_law)
      (use log_quietD [OF q] home mn pin room in \<open>simp_all add: lf tv(6) t(3)\<close>)
  then obtain u where u: "write_log_one m t = Inr u" "wrote t u [(?a, content t ?b)]" "refs u = refs t" by blast
  have "wrote s u (log_writes s (Suc m))"
    using wrote_trans [OF t(2) u(2)] by (simp add: log_writes_def cb)
  then show ?case using t u by (simp add: foldE_append)
qed

lemma install_loop:
  assumes q: "log_quiet s" and lh: "lh_ok s" and m: "m \<le> nat (lh_n s)"
    and pin: "recovering \<or> (\<forall>k<nat (lh_n s). refs s (lh_block s k) \<noteq> 0)"
    and room: "card {c. refs s c \<noteq> 0} < NBUF" and room2: "recovering \<longrightarrow> card {c. refs s c \<noteq> 0} + 1 < NBUF"
  shows "\<exists>t. foldE (install_one recovering) [0..<m] s = Inr t \<and> wrote s t (home_writes s m (content s)) \<and>
    (\<forall>c. refs t c = (if \<not> recovering \<and> c \<in> lh_block s ` {..<m} then refs s c - 1 else refs s c))"
  using m
proof (induction m)
  case 0
  then show ?case using q by (auto simp: home_writes_def log_quiet_def intro: wrote_refl)
next
  case (Suc m)
  then obtain t where t: "foldE (install_one recovering) [0..<m] s = Inr t" "wrote s t (home_writes s m (content s))"
    and tr: "\<forall>c. refs t c = (if \<not> recovering \<and> c \<in> lh_block s ` {..<m} then refs s c - 1 else refs s c)"
    by auto
  note tv = wrote_views [OF t(2)] and lf = log_fields [OF wrote_views(2) [OF t(2)]]
  let ?a = "log_block (log_start s) m" and ?b = "lh_block s m"
  have mn: "m < nat (lh_n s)" using Suc.prems by simp
  note home = lh_ok_home [OF lh mn]
  have "?a \<noteq> lh_block s k" if "k < m" for k
    using lh_ok_home(2) [OF lh _ mn, of k] mn that by simp
  then have "?a \<notin> fst ` set (home_writes s m (content s))" by (force simp: home_writes_def)
  then have ca: "content t ?a = content s ?a" by (simp add: tv apply_writes_other)
  have inj: "inj_on (lh_block s) {..<nat (lh_n s)}" using lh by (simp add: lh_ok_def)
  have nb: "?b \<notin> lh_block s ` {..<m}"
  proof
    assume "?b \<in> lh_block s ` {..<m}"
    then obtain k where "k < m" "lh_block s k = ?b" by auto
    then show False using inj_onD [OF inj, of k m] mn by simp
  qed
  have le: "refs t c \<le> refs s c" for c using tr by simp
  have "{c. refs t c \<noteq> 0} \<subseteq> {c. refs s c \<noteq> 0}"
  proof
    fix c assume "c \<in> {c. refs t c \<noteq> 0}"
    then show "c \<in> {c. refs s c \<noteq> 0}" using le [of c] by simp
  qed
  then have card: "card {c. refs t c \<noteq> 0} \<le> card {c. refs s c \<noteq> 0}" by (intro card_mono) simp_all
  have small: "refs t c + 1 < 2 ^ 32" for c
  proof -
    have "refs s c + 2 < 2 ^ 32" using q by (simp add: log_quiet_def)
    then show ?thesis using le [of c] by linarith
  qed
  have "\<exists>u. install_one recovering m t = Inr u \<and> wrote t u [(?b, content t ?a)] \<and>
      refs u = (if recovering then refs t else (refs t)(?b := refs t ?b - 1))"
    using tv(1)
  proof (rule install_one_law)
    show "refs t ?b \<noteq> 0 \<or> recovering \<and> card {c. refs t c \<noteq> 0} + 1 < NBUF"
    proof (cases recovering)
      case True
      then show ?thesis using room2 card by linarith
    next
      case False
      then show ?thesis using pin tr nb mn by simp
    qed
  qed (use log_quietD [OF q] home home(2) [OF mn] card room small in \<open>simp_all add: lf tv(6)\<close>)
  then obtain u where u: "install_one recovering m t = Inr u" "wrote t u [(?b, content t ?a)]"
      "refs u = (if recovering then refs t else (refs t)(?b := refs t ?b - 1))" by blast
  have "wrote s u (home_writes s (Suc m) (content s))"
    using wrote_trans [OF t(2) u(2)] by (simp add: home_writes_def ca)
  moreover have "refs u c = (if \<not> recovering \<and> c \<in> lh_block s ` {..<Suc m} then refs s c - 1 else refs s c)" for c
    using u(3) tr nb by (cases "c = ?b") (simp_all add: lessThan_Suc)
  ultimately show ?case using t u(1) by (simp add: foldE_append)
qed

text \<open>The cache does not depend on the fields of the log.\<close>

lemma same_cache:
  fixes s s' :: "'z lst"
  assumes "buf s' = buf s" "disk s' = disk s" "dwrites s' = dwrites s" "proc s' = proc s" "myproc s' = myproc s"
  shows "content s' = content s" "refs s' = refs s" "held s' = held s" "bio_inv s' = bio_inv s" "handle s' = handle s"
proof -
  have c: "bcached s' = bcached s" by (simp add: fun_eq_iff bcached_def assms)
  show "content s' = content s" unfolding content_def c assms by simp
  show "refs s' = refs s" unfolding refs_def c assms by simp
  show "held s' = held s" unfolding held_def c assms by simp
  have "buf_ok s' = buf_ok s" by (simp add: fun_eq_iff buf_ok_def assms)
  then show "bio_inv s' = bio_inv s" by (simp add: bio_inv_def blist_def cache_ok_def c assms)
  show "handle s' = handle s" by (simp add: fun_eq_iff handle_def c holdingsleep_def buf_lock_def assms split: option.split)
qed

lemma lh_upd_cache [simp]:
  fixes s :: "'z lst"
  shows "content (s\<lparr>lh_n := n, lh_block := bl\<rparr>) = content s" "refs (s\<lparr>lh_n := n, lh_block := bl\<rparr>) = refs s"
    "held (s\<lparr>lh_n := n, lh_block := bl\<rparr>) = held s" "bio_inv (s\<lparr>lh_n := n, lh_block := bl\<rparr>) = bio_inv s"
    "handle (s\<lparr>lh_n := n, lh_block := bl\<rparr>) = handle s"
    "content (s\<lparr>lh_n := n\<rparr>) = content s" "refs (s\<lparr>lh_n := n\<rparr>) = refs s" "held (s\<lparr>lh_n := n\<rparr>) = held s"
    "bio_inv (s\<lparr>lh_n := n\<rparr>) = bio_inv s"
  by (simp_all add: same_cache [of "s\<lparr>lh_n := n, lh_block := bl\<rparr>" s] same_cache [of "s\<lparr>lh_n := n\<rparr>" s]
      myproc_def cpuid_def)

text \<open>The writes of a commit, in order.\<close>

definition commit_writes :: "'z lst \<Rightarrow> (u32 \<times> block) list" where
  "commit_writes s = (let n = nat (lh_n s); h = put_head (lh_n s) (lh_block s) (content s (log_start s)) in
     log_writes s n @ [(log_start s, h)] @ map (\<lambda>k. (lh_block s k, content s (lh_block s k))) [0..<n] @
     [(log_start s, put_head 0 (lh_block s) h)])"

lemma log_writes_at:
  assumes "unat (log_start s) + LOGSIZE + 1 < 2 ^ 32" and "n \<le> LOGSIZE" and "k < n"
  shows "apply_writes (log_writes s n) f (log_block (log_start s) k) = content s (lh_block s k)"
proof -
  have "inj_on (log_block (log_start s)) (set [0..<n])"
    using log_block_inj [OF assms(1)] by (rule inj_on_subset) (use assms(2) in auto)
  then show ?thesis unfolding log_writes_def using assms(3) by (intro apply_writes_map) auto
qed

lemma start_not_logged:
  assumes "unat (log_start s) + LOGSIZE + 1 < 2 ^ 32" and "n \<le> LOGSIZE"
  shows "log_start s \<notin> fst ` set (log_writes s n)"
proof
  assume "log_start s \<in> fst ` set (log_writes s n)"
  then obtain k where "k < n" "log_start s = log_block (log_start s) k" by (auto simp: log_writes_def)
  then show False using log_block_not_start [OF assms(1), of k] assms(2) by simp
qed

lemma commit_law:
  assumes q: "log_quiet s" and lh: "lh_ok s" and pos: "0 < lh_n s"
    and pin: "\<forall>k<nat (lh_n s). refs s (lh_block s k) \<noteq> 0" and room: "card {c. refs s c \<noteq> 0} < NBUF"
  shows "\<exists>s'. commit s = Inr s' \<and> bio_inv s' \<and> lh_n s' = 0 \<and> dwrites s' = dwrites s @ commit_writes s \<and>
    disk s' = apply_writes (commit_writes s) (disk s) \<and> content s' = apply_writes (commit_writes s) (content s) \<and>
    held s' = held s \<and> log_start s' = log_start s \<and> outstanding s' = outstanding s \<and> myproc s' = myproc s \<and>
    refs s' = (\<lambda>c. if c \<in> lh_block s ` {..<nat (lh_n s)} then refs s c - 1 else refs s c)"
proof -
  let ?n = "nat (lh_n s)" and ?st = "log_start s"
  let ?h = "put_head (lh_n s) (lh_block s) (content s ?st)"
  note qd = log_quietD [OF q]
  have n: "?n \<le> LOGSIZE" using lh by (rule lh_ok_n)
  obtain t where t: "write_log s = Inr t" "wrote s t (log_writes s ?n)" "refs t = refs s"
    using write_log_loop [OF q lh le_refl pin room] by (auto simp: write_log_def)
  note tv = wrote_views [OF t(2)] and tf = log_fields [OF wrote_views(2) [OF t(2)]]
  have "content t ?st = content s ?st" using start_not_logged [OF qd(5) n] by (simp add: tv apply_writes_other)
  moreover have "\<exists>u. write_head t = Inr u \<and>
      wrote t u [(log_start t, put_head (lh_n t) (lh_block t) (content t (log_start t)))] \<and> refs u = refs t"
    by (rule write_head_law) (use qd room in \<open>simp_all add: tv tf t(3)\<close>)
  ultimately obtain u where u: "write_head t = Inr u" "wrote t u [(?st, ?h)]" "refs u = refs t"
    by (auto simp: tf)
  have su: "wrote s u (log_writes s ?n @ [(?st, ?h)])" using wrote_trans [OF t(2) u(2)] by simp
  note uv = wrote_views [OF su] and uf = log_fields [OF wrote_views(2) [OF su]]
  have qu: "log_quiet u" using q by (simp add: log_quiet_def uv uf u(3) t(3))
  have lu: "lh_ok u" using lh by (simp add: lh_ok_def log_slots_def uf)
  have "\<exists>v. foldE (install_one False) [0..<nat (lh_n u)] u = Inr v \<and> wrote u v (home_writes u (nat (lh_n u)) (content u)) \<and>
      (\<forall>c. refs v c = (if \<not> False \<and> c \<in> lh_block u ` {..<nat (lh_n u)} then refs u c - 1 else refs u c))"
    by (rule install_loop [OF qu lu le_refl]) (use pin room in \<open>simp_all add: uf u(3) t(3)\<close>)
  then obtain v where v: "install_trans False u = Inr v" "wrote u v (home_writes u ?n (content u))"
    and vr: "\<And>c. refs v c = (if c \<in> lh_block s ` {..<?n} then refs s c - 1 else refs s c)"
    by (auto simp: install_trans_def uf u(3) t(3))
  have "content u (log_block ?st k) = content s (lh_block s k)" if "k < ?n" for k
    using log_writes_at [OF qd(5) n that] log_block_not_start [OF qd(5)] n that by (simp add: uv)
  then have hw: "home_writes u ?n (content u) = map (\<lambda>k. (lh_block s k, content s (lh_block s k))) [0..<?n]"
    by (simp add: home_writes_def uf)
  have sv: "wrote s v (log_writes s ?n @ [(?st, ?h)] @ map (\<lambda>k. (lh_block s k, content s (lh_block s k))) [0..<?n])"
    using wrote_trans [OF su v(2)] hw by simp
  note vv = wrote_views [OF sv] and vf = log_fields [OF wrote_views(2) [OF sv]]
  have "?st \<notin> fst ` set (map (\<lambda>k. (lh_block s k, content s (lh_block s k))) [0..<?n])"
    using lh_ok_home(1) [OF lh] by force
  then have cst: "content v ?st = ?h" by (simp add: vv apply_writes_other)
  have "{c. refs v c \<noteq> 0} \<subseteq> {c. refs s c \<noteq> 0}" using vr by (auto split: if_splits)
  then have "card {c. refs v c \<noteq> 0} \<le> card {c. refs s c \<noteq> 0}" by (intro card_mono) simp_all
  then have vc: "card {c. refs v c \<noteq> 0} < NBUF" using room by linarith
  have "refs v ?st \<le> refs s ?st" by (simp add: vr)
  then have vs: "refs v ?st + 1 < 2 ^ 32" using qd(4) [of ?st] by linarith
  have "\<exists>w. write_head (v\<lparr>lh_n := 0\<rparr>) = Inr w \<and>
      wrote (v\<lparr>lh_n := 0\<rparr>) w [(log_start (v\<lparr>lh_n := 0\<rparr>), put_head (lh_n (v\<lparr>lh_n := 0\<rparr>)) (lh_block (v\<lparr>lh_n := 0\<rparr>))
        (content (v\<lparr>lh_n := 0\<rparr>) (log_start (v\<lparr>lh_n := 0\<rparr>))))] \<and> refs w = refs (v\<lparr>lh_n := 0\<rparr>)"
    by (rule write_head_law) (use qd vc vs in \<open>simp_all add: vv vf\<close>)
  then obtain w where w: "write_head (v\<lparr>lh_n := 0\<rparr>) = Inr w" "refs w = refs v"
      "wrote (v\<lparr>lh_n := 0\<rparr>) w [(?st, put_head 0 (lh_block s) ?h)]"
    by (auto simp: vf cst)
  note wv = wrote_views [OF w(3)] and wf = log_fields [OF wrote_views(2) [OF w(3)]]
  have "commit s = Inr w" using pos t(1) u(1) v(1) w(1) by (simp add: commit_def)
  then show ?thesis
    using wv wf vv vf w(2) vr by (intro exI [of _ w]) (simp add: commit_writes_def Let_def fun_eq_iff myproc_def cpuid_def)
qed

section \<open>Recovery\<close>

text \<open>What recovery makes of a disk whose log starts at \<open>st\<close>, and when its header is sound.\<close>

definition hdr_ok :: "u32 \<Rightarrow> nat \<Rightarrow> block \<Rightarrow> bool" where
  "hdr_ok st m h \<longleftrightarrow> 0 \<le> hdr_n h \<and> nat (hdr_n h) \<le> m \<and> inj_on (hdr_block h) {..<nat (hdr_n h)} \<and>
     (\<forall>k<nat (hdr_n h). hdr_block h k \<notin> log_area st m)"

definition recovery_writes :: "u32 \<Rightarrow> (u32 \<Rightarrow> block) \<Rightarrow> (u32 \<times> block) list" where
  "recovery_writes st D =
     map (\<lambda>k. (hdr_block (D st) k, D (log_block st k))) [0..<nat (hdr_n (D st))] @ [(st, store32 (D st) 0 0)]"

text \<open>A freshly booted cache: nothing is referenced, so every block reads as on disk.\<close>

definition log_booted :: "'z lst \<Rightarrow> bool" where
  "log_booted s \<longleftrightarrow> bio_inv s \<and> log_dev s = ROOTDEV \<and> unat (log_start s) + LOGSIZE + 1 < 2 ^ 32 \<and>
     refs s = (\<lambda>_. 0) \<and> held s = (\<lambda>_. False)"

lemma log_booted_quiet: "log_booted s \<Longrightarrow> log_quiet s"
  by (simp add: log_booted_def log_quiet_def)

lemma log_booted_content: "log_booted s \<Longrightarrow> content s = disk s"
  by (auto simp: log_booted_def clean_unreferenced)

lemma read_head_law:
  assumes b: "log_booted s" and n: "hdr_n (disk s (log_start s)) \<le> LOGSIZE"
  shows "\<exists>s'. read_head s = Inr s' \<and> log_booted s' \<and> disk s' = disk s \<and> dwrites s' = dwrites s \<and>
    log_start s' = log_start s \<and> log_slots s' = log_slots s \<and> lh_n s' = hdr_n (disk s (log_start s)) \<and>
    (\<forall>i<nat (hdr_n (disk s (log_start s))). lh_block s' i = hdr_block (disk s (log_start s)) i)"
proof -
  let ?st = "log_start s" and ?h = "disk s (log_start s)"
  have inv: "bio_inv s" and dev: "log_dev s = ROOTDEV" and r0: "refs s = (\<lambda>_. 0)" and nh: "held s = (\<lambda>_. False)"
    using b by (simp_all add: log_booted_def)
  obtain i t where rd: "bread ROOTDEV ?st s = Inr (i, t)"
    using bread_total [OF inv, of ?st] by (auto simp: nh r0)
  have t: "bio_inv t" "handle t i ?st" "bio_ext t = bio_ext s"
    and tv: "bview t = (bview s)\<lparr>vrefs := (refs s)(?st := Suc (refs s ?st)), vheld := (held s)(?st := True)\<rparr>"
    using bread_law [OF inv rd] by (simp_all add: r0)
  note tvv = arg_cong [OF tv, of vcontent] arg_cong [OF tv, of vdisk] arg_cong [OF tv, of vtrace]
    arg_cong [OF tv, of vrefs] arg_cong [OF tv, of vheld]
  note tf = log_fields [OF t(3)]
  have d: "get_data i t = ?h"
    using bc.gt [OF t(1,2)] tvv(1) log_booted_content [OF b] by simp
  define u where "u = t\<lparr>lh_n := hdr_n ?h, lh_block := (\<lambda>i. if int i < hdr_n ?h then hdr_block ?h i else lh_block t i)\<rparr>"
  have "bio_inv u" "handle u i ?st" using t by (simp_all add: u_def)
  moreover have "content u ?st = disk u ?st" using tvv log_booted_content [OF b] by (simp add: u_def)
  ultimately obtain v where v: "brelse i u = Inr v" "bio_inv v" "bio_ext v = bio_ext u"
    "bview v = (bview u)\<lparr>vrefs := (refs u)(?st := refs u ?st - 1), vheld := (held u)(?st := False)\<rparr>"
    using brelse_law [of u i ?st] by blast
  note vvv = arg_cong [OF v(4), of vcontent] arg_cong [OF v(4), of vdisk] arg_cong [OF v(4), of vtrace]
    arg_cong [OF v(4), of vrefs] arg_cong [OF v(4), of vheld]
  note vf = log_fields [OF v(3)]
  have "read_head s = Inr v" using rd n v(1) by (simp add: read_head_def dev d u_def [symmetric])
  moreover have "log_booted v"
    using b v(2) vvv(4,5) tvv(4,5) by (auto simp: log_booted_def vf u_def tf)
  ultimately show ?thesis
    using vvv(2,3) tvv(2,3) by (intro exI [of _ v]) (auto simp: vf u_def tf log_slots_def)
qed

lemma recover_law:
  assumes b: "log_booted s" and ok: "hdr_ok (log_start s) (log_slots s) (disk s (log_start s))"
  shows "\<exists>s'. recover_from_log s = Inr s' \<and> log_booted s' \<and> lh_n s' = 0 \<and> log_start s' = log_start s \<and> log_slots s' = log_slots s \<and>
    dwrites s' = dwrites s @ recovery_writes (log_start s) (disk s) \<and>
    disk s' = apply_writes (recovery_writes (log_start s) (disk s)) (disk s)"
proof -
  let ?st = "log_start s" and ?h = "disk s (log_start s)"
  let ?n = "nat (hdr_n ?h)"
  have n: "0 \<le> hdr_n ?h" "hdr_n ?h \<le> LOGSIZE" using ok unfolding hdr_ok_def log_slots_def by linarith+
  obtain t where t: "read_head s = Inr t" "log_booted t" "disk t = disk s" "dwrites t = dwrites s"
    "log_start t = ?st" "lh_n t = hdr_n ?h" "log_slots t = log_slots s" and bl: "\<And>i. i < ?n \<Longrightarrow> lh_block t i = hdr_block ?h i"
    using read_head_law [OF b n(2)] by blast
  have "inj_on (lh_block t) {..<?n} = inj_on (hdr_block ?h) {..<?n}" by (rule inj_on_cong) (simp add: bl)
  then have lh: "lh_ok t" using ok by (simp add: lh_ok_def hdr_ok_def t bl)
  have r0: "refs t = (\<lambda>_. 0)" using t(2) by (simp add: log_booted_def)
  obtain u where u: "install_trans True t = Inr u" "wrote t u (home_writes t ?n (content t))" "refs u = refs t"
    using install_loop [OF log_booted_quiet [OF t(2)] lh le_refl, of True]
    by (auto simp: install_trans_def t r0)
  have hw: "home_writes t ?n (content t) = map (\<lambda>k. (hdr_block ?h k, disk s (log_block ?st k))) [0..<?n]"
    by (simp add: home_writes_def log_booted_content [OF t(2)] t bl)
  note uv = wrote_views [OF u(2)] and uf = log_fields [OF wrote_views(2) [OF u(2)]]
  have bu: "log_booted u" using t(2) by (simp add: log_booted_def uv uf u(3))
  have "?st \<notin> fst ` set (home_writes t ?n (content t))"
    using lh_ok_home(1) [OF lh] by (force simp: home_writes_def t)
  then have cst: "content u ?st = ?h"
    by (simp add: uv apply_writes_other log_booted_content [OF t(2)] t)
  let ?u = "u\<lparr>lh_n := 0\<rparr>"
  have "\<exists>w. write_head ?u = Inr w \<and> wrote ?u w [(log_start ?u, put_head (lh_n ?u) (lh_block ?u) (content ?u (log_start ?u)))] \<and>
      refs w = refs ?u"
    by (rule write_head_law) (use bu in \<open>simp_all add: log_booted_def\<close>)
  then obtain w where w: "write_head ?u = Inr w" "wrote ?u w [(?st, store32 ?h 0 0)]" "refs w = refs u"
    by (auto simp: uf t cst put_head_def)
  note wv = wrote_views [OF w(2)] and wf = log_fields [OF wrote_views(2) [OF w(2)]]
  have "recover_from_log s = Inr w" by (simp add: recover_from_log_def t u w)
  moreover have "log_booted w" using bu by (simp add: log_booted_def wv wf w(3) uf)
  ultimately show ?thesis
    by (intro exI [of _ w]) (use t(7) in \<open>simp add: wv wf uv uf t hw recovery_writes_def log_slots_def\<close>)
qed

end
