(* ===== verification/BioSpec.thy ===== *)
theory BioSpec
  imports BufCache ProcSteps
begin

text \<open>
  What kernel/bio.c promises: the cache after boot is an empty map over the disk, a block
  that is read, changed, written and released changes in the map and on disk and nowhere
  else, and buffers are recycled in least-recently-used order.
\<close>

section \<open>The cache after boot\<close>

lemma binit_fields:
  "b_valid (buf (binit s) i) = b_valid (buf s i)" "b_dev (buf (binit s) i) = b_dev (buf s i)"
  "b_blockno (buf (binit s) i) = b_blockno (buf s i)" "b_refcnt (buf (binit s) i) = b_refcnt (buf s i)"
  "b_data (buf (binit s) i) = b_data (buf s i)"
  "i < NBUF \<Longrightarrow> b_lock (buf (binit s) i) = initsleeplock"
  "disk (binit s) = disk s" "dwrites (binit s) = dwrites s" "proc (binit s) = proc s"
  "myproc (binit s) = myproc s" "bio_state.more (binit s) = bio_state.more s"
proof -
  let ?f = "\<lambda>b s. link_front b (upd_buf b (\<lambda>r. r\<lparr>b_lock := initsleeplock\<rparr>) s)"
  have "b_valid (buf (fold ?f [0..<n] t) i) = b_valid (buf t i) \<and> b_dev (buf (fold ?f [0..<n] t) i) = b_dev (buf t i) \<and>
    b_blockno (buf (fold ?f [0..<n] t) i) = b_blockno (buf t i) \<and>
    b_refcnt (buf (fold ?f [0..<n] t) i) = b_refcnt (buf t i) \<and> b_data (buf (fold ?f [0..<n] t) i) = b_data (buf t i) \<and>
    (i < n \<longrightarrow> b_lock (buf (fold ?f [0..<n] t) i) = initsleeplock) \<and> disk (fold ?f [0..<n] t) = disk t \<and>
    dwrites (fold ?f [0..<n] t) = dwrites t \<and> proc (fold ?f [0..<n] t) = proc t \<and>
    myproc (fold ?f [0..<n] t) = myproc t \<and> bio_state.more (fold ?f [0..<n] t) = bio_state.more t" for n t
    by (induction n) (auto simp: link_front_fields)
  from this [of NBUF "upd_buf HEAD (\<lambda>r. r\<lparr>b_prev := HEAD, b_next := HEAD\<rparr>) s"]
  show "b_valid (buf (binit s) i) = b_valid (buf s i)" "b_dev (buf (binit s) i) = b_dev (buf s i)"
    "b_blockno (buf (binit s) i) = b_blockno (buf s i)" "b_refcnt (buf (binit s) i) = b_refcnt (buf s i)"
    "b_data (buf (binit s) i) = b_data (buf s i)"
    "i < NBUF \<Longrightarrow> b_lock (buf (binit s) i) = initsleeplock"
    "disk (binit s) = disk s" "dwrites (binit s) = dwrites s" "proc (binit s) = proc s"
    "myproc (binit s) = myproc s" "bio_state.more (binit s) = bio_state.more s"
    unfolding binit_def by (auto simp del: upt_rec_numeral)
qed

lemma binit_inv:
  assumes c: "\<And>b i j. bcached s b i \<Longrightarrow> bcached s b j \<Longrightarrow> i = j"
    and d: "\<And>i. i < NBUF \<Longrightarrow> b_refcnt (buf s i) \<noteq> 0 \<or> b_valid (buf s i) \<Longrightarrow> b_dev (buf s i) = ROOTDEV"
    and e: "\<And>i. i < NBUF \<Longrightarrow> b_refcnt (buf s i) = 0 \<Longrightarrow> b_valid (buf s i) \<Longrightarrow> b_data (buf s i) = disk s (b_blockno (buf s i))"
    and m: "myproc s \<noteq> None"
  shows "bio_inv (binit s)" "content (binit s) = content s" "refs (binit s) = refs s" "held (binit s) b = False"
proof -
  have bc: "bcached (binit s) = bcached s" by (simp add: fun_eq_iff bcached_def binit_fields)
  show "bio_inv (binit s)"
    unfolding bio_inv_def cache_ok_def bc buf_ok_def
    using binit_list [of s] c d e m by (auto simp: binit_fields initsleeplock_def)
  show "content (binit s) = content s" "refs (binit s) = refs s"
    by (simp_all add: fun_eq_iff content_def refs_def bc binit_fields cong: option.case_cong)
  show "held (binit s) b = False"
  proof (cases "first_index (bcached (binit s) b) NBUF")
    case None
    then show ?thesis unfolding held_def None by simp
  next
    case (Some i)
    then have "i < NBUF" by (simp add: first_index_Some)
    then show ?thesis unfolding held_def Some by (simp add: binit_fields initsleeplock_def)
  qed
qed

section \<open>Properties\<close>

definition bst0 :: "unit bst" where
  "bst0 = \<lparr>mem = (\<lambda>_. 0), freelist = 0, kend = KERNBASE, kernel_pagetable = 0, satp = 0,
     proc = (\<lambda>_. proc0\<lparr>p_state := RUNNING, p_pid := 1\<rparr>), nextpid = 2, initproc = Some 0,
     cpu_proc = (\<lambda>_. Some 0), hart = 0, ticks = 0,
     topp = \<lparr>uptime = 0, total_process = 0, running_process = 0, sleeping_process = 0\<rparr>,
     trampoline = 0, forkret_pc = 0, cons_out = [],
     buf = (\<lambda>_. \<lparr>b_valid = False, b_disk = False, b_dev = 0, b_blockno = 0, b_lock = initsleeplock,
       b_refcnt = 0, b_prev = 0, b_next = 0, b_data = (\<lambda>_. 0)\<rparr>),
     disk = (\<lambda>_ _. 3), dwrites = []\<rparr>"

lemma bst0_inv: "bio_inv (binit bst0)" "content (binit bst0) = (\<lambda>_ _. 3)" "refs (binit bst0) = (\<lambda>_. 0)"
  "held (binit bst0) b = False" "disk (binit bst0) = (\<lambda>_ _. 3)"
proof -
  have nc: "\<not> bcached bst0 b i" for b i by (simp add: bcached_def bst0_def)
  have z: "b_refcnt (buf bst0 i) = 0" "\<not> b_valid (buf bst0 i)" "disk bst0 = (\<lambda>_ _. 3)" for i by (simp_all add: bst0_def)
  have m: "myproc bst0 \<noteq> None" by (simp add: myproc_def cpuid_def bst0_def)
  note i = binit_inv [of bst0, OF _ _ _ m]
  show "bio_inv (binit bst0)" "held (binit bst0) b = False" using i nc z by blast+
  have "content (binit bst0) = content bst0" "refs (binit bst0) = refs bst0" using i nc z by blast+
  moreover have "first_index (\<lambda>i. bcached bst0 b i \<and> b_valid (buf bst0 i)) NBUF = None"
    "first_index (bcached bst0 b) NBUF = None" for b
    by (simp_all add: first_index_None nc)
  ultimately show "content (binit bst0) = (\<lambda>_ _. 3)" "refs (binit bst0) = (\<lambda>_. 0)"
    by (simp_all only: fun_eq_iff refs_def content_def option.case z(3)) simp_all
  show "disk (binit bst0) = (\<lambda>_ _. 3)" by (simp add: binit_fields bst0_def)
qed

text \<open>
  C8: The buffer cache implements a map from block numbers to contents.  If the block is not
  locked and the cache has a buffer for it, \<open>bread\<close> returns its contents; after changing them,
  \<open>bwrite\<close> and \<open>brelse\<close> the map and the disk are changed at that block only, one write has
  gone to the disk, and reference counts and locks are as before.
\<close>

theorem cache_refines_block_map:
  assumes "bio_inv s" and "\<not> held s b" and "refs s b \<noteq> 0 \<or> card {c. refs s c \<noteq> 0} < NBUF"
    and "refs s b + 1 < 2 ^ 32"
  shows "\<exists>i t u w. bread ROOTDEV b s = Inr (i, t) \<and> get_data i t = content s b \<and> content t = content s \<and>
    bwrite i (set_data i d t) = Inr u \<and> brelse i u = Inr w \<and> bio_inv w \<and>
    bview w = (bview s)\<lparr>vcontent := (content s)(b := d), vdisk := (disk s)(b := d), vtrace := dwrites s @ [(b, d)]\<rparr>"
proof -
  obtain i t where rd: "bread ROOTDEV b s = Inr (i, t)" using bread_total [OF assms(1-3)] by blast
  have "bview t = (bview s)\<lparr>vrefs := (refs s)(b := Suc (refs s b)), vheld := (held s)(b := True)\<rparr>"
    using bread_law [OF assms(1) rd assms(4)] by blast
  from arg_cong [OF this, of vcontent] have "content t = content s" by simp
  then show ?thesis using bc.read_modify_write [OF assms(1) rd, of d] rd assms(4) by auto
qed

theorem cache_refines_block_map_witness:
  "\<exists>i t u w. bread ROOTDEV 9 (binit bst0) = Inr (i, t) \<and> get_data i t = (\<lambda>_. 3) \<and>
     bwrite i (set_data i (\<lambda>_. 5) t) = Inr u \<and> brelse i u = Inr w \<and> disk w 9 = (\<lambda>_. 5) \<and> disk w 8 = (\<lambda>_. 3)"
proof -
  obtain i t u w where "bread ROOTDEV 9 (binit bst0) = Inr (i, t)" "get_data i t = (\<lambda>_. 3)"
     "bwrite i (set_data i (\<lambda>_. 5) t) = Inr u" "brelse i u = Inr w"
     and v: "bview w = (bview (binit bst0))\<lparr>vcontent := (content (binit bst0))(9 := (\<lambda>_. 5)),
       vdisk := (disk (binit bst0))(9 := (\<lambda>_. 5)), vtrace := dwrites (binit bst0) @ [(9, (\<lambda>_. 5))]\<rparr>"
    using cache_refines_block_map [OF bst0_inv(1), of 9 "\<lambda>_. 5"] bst0_inv by auto
  moreover have "disk w 9 = (\<lambda>_. 5) \<and> disk w 8 = (\<lambda>_. 3)"
    using arg_cong [OF v, of vdisk] by (simp add: bst0_inv)
  ultimately show ?thesis by blast
qed

text \<open>
  C9: Recycling is least recently used.  \<open>brelse\<close> of the last reference moves the buffer to
  the front of the list and keeps the order of the others, and a \<open>bread\<close> that misses takes the
  unreferenced buffer nearest the end of the list.
\<close>

theorem lru_recycling:
  assumes "bio_inv s" and "blist s bs"
  shows "(handle s i b \<and> refs s b = 1 \<longrightarrow> (\<exists>s'. brelse i s = Inr s' \<and> blist s' (i # remove1 i bs))) \<and>
    ((\<forall>j. \<not> bcached s b j) \<and> bread ROOTDEV b s = Inr (i, s') \<longrightarrow>
      List.find (\<lambda>j. b_refcnt (buf s j) = 0) (rev bs) = Some i)"
proof (intro conjI impI; elim conjE)
  assume h: "handle s i b" and r: "refs s b = 1"
  note hr = handle_refs [OF assms(1) h]
  obtain t where t: "brelse i s = Inr (if b_refcnt (buf s i) - 1 = 0 then move_front i t else t)"
    and tb: "buf t = (buf s)(i := (buf s i)\<lparr>b_lock := unlocked, b_refcnt := b_refcnt (buf s i) - 1\<rparr>)"
    using brelse_state [OF h] by blast
  have "b_refcnt (buf s i) = 1" using hr(7) r by (metis unat_1 unsigned_word_eqI)
  moreover have "blist t bs" using assms(2) blist_cong [of t s bs] by (simp add: tb)
  ultimately show "\<exists>s'. brelse i s = Inr s' \<and> blist s' (i # remove1 i bs)"
    using t move_front_list [of t bs i] hr(4) by simp
next
  assume nc: "\<forall>j. \<not> bcached s b j" and rd: "bread ROOTDEV b s = Inr (i, s')"
  let ?P = "\<lambda>x. b_dev (buf s x) = ROOTDEV \<and> b_blockno (buf s x) = b" and ?Q = "\<lambda>x. b_refcnt (buf s x) = 0"
  have "List.find ?P bs = None" using nc assms(2) by (auto simp: find_None_iff blist_def bcached_def)
  moreover have "chain_find (Suc NBUF) (\<lambda>x. b_next (buf s x)) ?P HEAD (b_next (buf s HEAD)) = Some (List.find ?P bs)"
    using assms(2) blist_length [OF assms(2)] by (intro chain_find_dseg) (auto simp: blist_def)
  ultimately have f: "chain_find (Suc NBUF) (\<lambda>x. b_next (buf s x)) ?P HEAD (b_next (buf s HEAD)) = Some None" by simp
  have q: "chain_find (Suc NBUF) (\<lambda>x. b_prev (buf s x)) ?Q HEAD (b_prev (buf s HEAD)) = Some (List.find ?Q (rev bs))"
    using assms(2) blist_length [OF assms(2)] by (intro chain_find_dseg_back) (auto simp: blist_def)
  obtain t where bg: "bget ROOTDEV b s = Inr (i, t)"
    using rd by (auto simp: bread_def bindE_def split: sum.splits if_splits)
  show "List.find ?Q (rev bs) = Some i"
    using bg unfolding bget_def f option.case q by (cases "List.find ?Q (rev bs)") (auto simp: bindE_def split: sum.splits)
qed

theorem lru_recycling_witness:
  "\<exists>i s'. bread ROOTDEV 9 (binit bst0) = Inr (i, s') \<and>
     List.find (\<lambda>j. b_refcnt (buf (binit bst0) j) = 0) (rev (rev [0..<NBUF])) = Some i"
proof -
  obtain i s' where "bread ROOTDEV 9 (binit bst0) = Inr (i, s')"
    using bread_total [OF bst0_inv(1), of 9] bst0_inv by auto
  moreover have "\<not> bcached (binit bst0) 9 j" for j by (simp add: bcached_def binit_fields bst0_def)
  ultimately show ?thesis using lru_recycling [OF bst0_inv(1) binit_list] by blast
qed

end
