(* ===== verification/LogSafe.thy ===== *)
theory LogSafe
  imports Log BioSpec
begin

text \<open>
  What the log promises.  A crash is a cut in the recorded sequence of disk writes: the
  machine restarts with an empty cache and the disk as the writes before the cut left it.
  Recovery then gives every block of the transaction its old contents or every block its
  new contents.  Blocks outside the log itself are the ones that matter.
\<close>

section \<open>Cutting the writes of a commit\<close>

lemma apply_writes_fun:
  "apply_writes (map (\<lambda>i. (a i, c (a i))) xs) f = (\<lambda>b. if b \<in> a ` set xs then c b else f b)"
  by (induction xs arbitrary: f) (auto simp: fun_eq_iff)

text \<open>The blocks of the transaction, and the disk once it is installed.\<close>

definition home :: "'z lst \<Rightarrow> u32 set" where
  "home s = lh_block s ` {..<nat (lh_n s)}"

definition installed :: "'z lst \<Rightarrow> u32 \<Rightarrow> block" where
  "installed s b = (if b \<in> home s then content s b else disk s b)"

definition recovered :: "u32 \<Rightarrow> (u32 \<Rightarrow> block) \<Rightarrow> u32 \<Rightarrow> block" where
  "recovered st D = apply_writes (recovery_writes st D) D"

lemma hdr_n_store [simp]: "hdr_n (store32 d 0 0) = 0"
  by (simp add: hdr_n_def)

lemma recovered_header: "hdr_n (recovered st D st) = 0"
  by (simp add: recovered_def recovery_writes_def)

lemma recovered_clean:
  assumes "hdr_n (D st) = 0" and "b \<noteq> st"
  shows "recovered st D b = D b"
  using assms by (simp add: recovered_def recovery_writes_def)

lemma log_writes_area:
  assumes "lh_ok s" and "b \<notin> log_area (log_start s) (log_slots s)"
  shows "b \<notin> fst ` set (log_writes s (nat (lh_n s)))"
proof
  assume "b \<in> fst ` set (log_writes s (nat (lh_n s)))"
  then obtain k where "k < nat (lh_n s)" "b = log_block (log_start s) k" by (auto simp: log_writes_def)
  then show False using assms log_block_area [of k "log_slots s" "log_start s"] by (simp add: lh_ok_def)
qed

text \<open>A log on disk that holds the whole transaction, whatever has been installed of it.\<close>

lemma recovered_full:
  assumes h: "hdr_n (D st) = int n" and bl: "\<And>k. k < n \<Longrightarrow> hdr_block (D st) k = bl k"
    and lg: "\<And>k. k < n \<Longrightarrow> D (log_block st k) = c (bl k)" and b: "b \<noteq> st"
  shows "recovered st D b = (if b \<in> bl ` {..<n} then c b else D b)"
proof -
  have "recovery_writes st D = map (\<lambda>k. (bl k, c (bl k))) [0..<n] @ [(st, store32 (D st) 0 0)]"
    using h bl lg by (simp add: recovery_writes_def)
  then show ?thesis using b by (auto simp: recovered_def apply_writes_fun)
qed

lemma commit_writes_cut:
  fixes s defines "n \<equiv> nat (lh_n s)"
  assumes "n < k" and "k \<le> 2 * n + 1"
  shows "take k (commit_writes s) =
    log_writes s n @ [(log_start s, put_head (lh_n s) (lh_block s) (content s (log_start s)))] @
    map (\<lambda>i. (lh_block s i, content s (lh_block s i))) [0..<k - n - 1]"
proof -
  obtain j where k: "k = n + Suc j" using less_imp_Suc_add [OF assms(2)] by auto
  then have "j \<le> n" using assms(3) by linarith
  then show ?thesis using k by (simp add: commit_writes_def Let_def n_def [symmetric] take_map log_writes_def)
qed

lemma commit_writes_early: "k \<le> nat (lh_n s) \<Longrightarrow> take k (commit_writes s) = take k (log_writes s (nat (lh_n s)))"
  by (simp add: commit_writes_def Let_def log_writes_def)

lemma commit_writes_length: "length (commit_writes s) = 2 * nat (lh_n s) + 2"
  by (simp add: commit_writes_def Let_def log_writes_def)

lemma set_take_fst: "x \<notin> fst ` set ws \<Longrightarrow> x \<notin> fst ` set (take k ws)"
  using set_take_subset [of k ws] by blast

lemma commit_disk_outside:
  assumes lh: "lh_ok s" and b: "b \<notin> log_area (log_start s) (log_slots s)"
  shows "apply_writes (commit_writes s) f b = (if b \<in> home s then content s b else f b)"
  using log_writes_area [OF lh b] b
  by (auto simp: commit_writes_def Let_def apply_writes_fun apply_writes_other home_def log_area_def atLeast0LessThan)

lemma commit_header: "hdr_n (apply_writes (commit_writes s) f (log_start s)) = 0"
  by (simp add: commit_writes_def Let_def put_head_def)

lemma start_not_home: "lh_ok s \<Longrightarrow> log_start s \<notin> home s"
  using lh_ok_home(1) by (fastforce simp: home_def)

lemma slot_not_home: "lh_ok s \<Longrightarrow> k < nat (lh_n s) \<Longrightarrow> log_block (log_start s) k \<notin> home s"
  using lh_ok_home(2) by (fastforce simp: home_def)

lemma cut_header_ok:
  assumes q: "log_quiet s" and lh: "lh_ok s" and h0: "hdr_n (disk s (log_start s)) = 0"
  defines "D \<equiv> \<lambda>k. apply_writes (take k (commit_writes s)) (disk s)"
  shows "hdr_ok (log_start s) (log_slots s) (D k (log_start s))"
    and "b \<notin> log_area (log_start s) (log_slots s) \<Longrightarrow>
      recovered (log_start s) (D k) b = (if k \<le> nat (lh_n s) then disk s b else installed s b)"
proof -
  let ?n = "nat (lh_n s)" and ?st = "log_start s" and ?bl = "lh_block s"
  let ?h = "put_head (lh_n s) (lh_block s) (content s ?st)"
  note start = log_quietD(5) [OF q] and n = lh_ok_n [OF lh]
  have nh: "hdr_n ?h = int ?n" "i < ?n \<Longrightarrow> hdr_block ?h i = ?bl i" for i
    using hdr_put_head [OF n(3,2)] n(3) by simp_all
  have zero: "hdr_ok ?st m d" if "hdr_n d = 0" for m d using that by (simp add: hdr_ok_def)
  consider (old) "k \<le> ?n" | (mid) "?n < k" "k \<le> 2 * ?n + 1" | (new) "2 * ?n + 1 < k" by linarith
  then have "hdr_ok ?st (log_slots s) (D k ?st) \<and> (b \<notin> log_area ?st (log_slots s) \<longrightarrow>
      recovered ?st (D k) b = (if k \<le> ?n then disk s b else installed s b))"
  proof cases
    case old
    have st: "D k ?st = disk s ?st"
      using set_take_fst [OF start_not_logged [OF start n(1)]]
      by (simp add: D_def commit_writes_early [OF old] apply_writes_other)
    have "D k b = disk s b" if "b \<notin> log_area ?st (log_slots s)"
      using set_take_fst [OF log_writes_area [OF lh that]]
      by (simp add: D_def commit_writes_early [OF old] apply_writes_other)
    then show ?thesis
      using old zero [of "D k ?st"] recovered_clean [of "D k" ?st b] h0 st by (auto simp: log_area_def)
  next
    case mid
    let ?j = "k - ?n - 1"
    have D: "D k = (\<lambda>b. if b \<in> ?bl ` {..<?j} then content s b
        else ((apply_writes (log_writes s ?n) (disk s))(?st := ?h)) b)"
      by (simp add: D_def commit_writes_cut [OF mid] apply_writes_fun atLeast0LessThan)
    have sub: "?bl ` {..<?j} \<subseteq> home s" using mid by (auto simp: home_def)
    have st: "D k ?st = ?h" using sub start_not_home [OF lh] by (auto simp: D)
    have lg: "D k (log_block ?st i) = content s (?bl i)" if "i < ?n" for i
    proof -
      have "log_block ?st i \<notin> ?bl ` {..<?j}" using sub slot_not_home [OF lh that] by blast
      moreover have "log_block ?st i \<noteq> ?st" using log_block_not_start [OF start, of i] n(1) that by simp
      ultimately show ?thesis using log_writes_at [OF start n(1) that] by (simp add: D)
    qed
    have "hdr_ok ?st (log_slots s) ?h"
    proof -
      have "inj_on (hdr_block ?h) {..<?n} = inj_on ?bl {..<?n}" by (rule inj_on_cong) (simp add: nh)
      then show ?thesis using lh by (simp add: hdr_ok_def lh_ok_def nh)
    qed
    moreover have "recovered ?st (D k) b = installed s b" if b: "b \<notin> log_area ?st (log_slots s)"
    proof -
      have "b \<noteq> ?st" using b by (simp add: log_area_def)
      moreover have "D k b = (if b \<in> ?bl ` {..<?j} then content s b else disk s b)"
        using log_writes_area [OF lh b] \<open>b \<noteq> ?st\<close> by (simp add: D apply_writes_other)
      ultimately show ?thesis
        using recovered_full [of "D k" ?st ?n ?bl "content s" b] sub st nh lg
        by (auto simp: installed_def home_def)
    qed
    ultimately show ?thesis using mid st by simp
  next
    case new
    then have D: "D k = apply_writes (commit_writes s) (disk s)" by (simp add: D_def commit_writes_length)
    have "D k b = installed s b" if "b \<notin> log_area ?st (log_slots s)"
      using commit_disk_outside [OF lh that] by (simp add: D installed_def)
    then show ?thesis
      using new zero [of "D k ?st"] commit_header [of s "disk s"] recovered_clean [of "D k" ?st b]
      by (auto simp: D log_area_def)
  qed
  then show "hdr_ok ?st (log_slots s) (D k ?st)" and "b \<notin> log_area ?st (log_slots s) \<Longrightarrow>
      recovered ?st (D k) b = (if k \<le> ?n then disk s b else installed s b)" by blast+
qed

section \<open>Cutting the writes of a recovery\<close>

lemma apply_writes_written:
  "b \<in> fst ` set ws \<Longrightarrow> apply_writes ws f b = apply_writes ws g b"
proof (induction ws arbitrary: f g)
  case (Cons w ws)
  show ?case
  proof (cases "b \<in> fst ` set ws")
    case True
    then show ?thesis using Cons.IH by (cases w) simp
  next
    case False
    then show ?thesis using Cons.prems by (cases w) (auto simp: apply_writes_other)
  qed
qed simp

lemma apply_writes_absorb:
  assumes "fst ` set vs \<subseteq> fst ` set ws"
  shows "apply_writes ws (apply_writes vs f) = apply_writes ws f"
proof
  fix b
  show "apply_writes ws (apply_writes vs f) b = apply_writes ws f b"
  proof (cases "b \<in> fst ` set ws")
    case True
    then show ?thesis by (rule apply_writes_written)
  next
    case False
    then have "b \<notin> fst ` set vs" using assms by blast
    then show ?thesis using False by (simp add: apply_writes_other)
  qed
qed

lemma recovery_cut:
  assumes ok: "hdr_ok st m (D st)"
  defines "D' \<equiv> \<lambda>j. apply_writes (take j (recovery_writes st D)) D"
  shows "hdr_ok st m (D' j st)" and "b \<noteq> st \<Longrightarrow> recovered st (D' j) b = recovered st D b"
proof -
  let ?n = "nat (hdr_n (D st))"
  let ?H = "map (\<lambda>k. (hdr_block (D st) k, D (log_block st k))) [0..<?n]"
  have notin: "x \<notin> fst ` set ?H" if "x \<in> log_area st m" for x
    using ok that by (auto simp: hdr_ok_def)
  have le: "?n \<le> m" using ok by (simp add: hdr_ok_def)
  have "hdr_ok st m (D' j st) \<and> (b \<noteq> st \<longrightarrow> recovered st (D' j) b = recovered st D b)"
  proof (cases "j \<le> ?n")
    case True
    then have cut: "D' j = apply_writes (take j ?H) D" by (simp add: D'_def recovery_writes_def)
    have same: "D' j x = D x" if "x \<in> log_area st m" for x
      using set_take_fst [OF notin [OF that]] by (simp add: cut apply_writes_other)
    have "st \<in> log_area st m" by (simp add: log_area_def)
    note st = same [OF this]
    have "D' j (log_block st k) = D (log_block st k)" if "k < ?n" for k
      by (rule same) (use that le in \<open>simp add: log_block_area\<close>)
    then have rw: "recovery_writes st (D' j) = recovery_writes st D" by (simp add: recovery_writes_def st)
    have "recovered st (D' j) = recovered st D"
    proof -
      have "apply_writes (recovery_writes st D) (apply_writes (take j (recovery_writes st D)) D) =
          apply_writes (recovery_writes st D) D"
        by (rule apply_writes_absorb) (meson image_mono set_take_subset)
      then show ?thesis unfolding recovered_def rw by (simp add: D'_def)
    qed
    then show ?thesis using ok st by simp
  next
    case False
    then have D: "D' j = recovered st D" by (simp add: D'_def recovered_def recovery_writes_def)
    then show ?thesis
      using recovered_clean [of "recovered st D" st b] recovered_header [of st D] by (simp add: hdr_ok_def)
  qed
  then show "hdr_ok st m (D' j st)" and "b \<noteq> st \<Longrightarrow> recovered st (D' j) b = recovered st D b" by blast+
qed

section \<open>Adding a block to the transaction\<close>

lemma home_Suc:
  assumes "0 \<le> lh_n s"
  shows "home (s\<lparr>lh_block := (lh_block s)(nat (lh_n s) := b), lh_n := lh_n s + 1\<rparr>) = insert b (home s)"
  using assms by (auto simp: home_def nat_add_distrib lessThan_Suc)

lemma log_write_cases:
  assumes w: "log_write i s = Inr s'" and "0 \<le> lh_n s"
  shows "(b_blockno (buf s i) \<in> home s \<and> s' = s) \<or>
    (b_blockno (buf s i) \<notin> home s \<and> lh_n s < LOGSIZE \<and> lh_n s < log_size s - 1 \<and>
     s' = (bpin i s)\<lparr>lh_block := (lh_block s)(nat (lh_n s) := b_blockno (buf s i)), lh_n := lh_n s + 1\<rparr>)"
proof (cases "first_index (\<lambda>k. lh_block s k = b_blockno (buf s i)) (nat (lh_n s))")
  case None
  then have "b_blockno (buf s i) \<notin> home s" by (auto simp: first_index_None home_def)
  moreover have "s' = (bpin i s)\<lparr>lh_block := (lh_block s)(nat (lh_n s) := b_blockno (buf s i)), lh_n := lh_n s + 1\<rparr>"
    "lh_n s < LOGSIZE" "lh_n s < log_size s - 1"
    using w unfolding log_write_def Let_def None option.case by (auto simp: bpin_def upd_buf_def split: if_splits)
  ultimately show ?thesis by blast
next
  case (Some k)
  then have k: "k < nat (lh_n s)" "lh_block s k = b_blockno (buf s i)" by (auto simp: first_index_Some)
  then have "b_blockno (buf s i) \<in> home s" by (force simp: home_def)
  moreover have "(lh_block s)(k := b_blockno (buf s i)) = lh_block s" using k(2) by (intro fun_upd_idem)
  ultimately show ?thesis using w k(1) unfolding log_write_def Let_def Some option.case by (auto split: if_splits)
qed

lemma log_write_succeeds:
  "lh_n s < LOGSIZE \<Longrightarrow> lh_n s < log_size s - 1 \<Longrightarrow> 1 \<le> outstanding s \<Longrightarrow> \<exists>s'. log_write b s = Inr s'"
  by (simp add: log_write_def Let_def)

section \<open>Reservations\<close>

text \<open>
  Each open operation has a budget of MAXOPBLOCKS blocks it may still add to the log.
  The steps of the processes that share the log, with the budgets as a ghost list.
\<close>

inductive log_step :: "'z lst \<times> nat list \<Rightarrow> 'z lst \<times> nat list \<Rightarrow> bool" where
  begins: "begin_op s = Inr s' \<Longrightarrow> log_step (s, bs) (s', MAXOPBLOCKS # bs)"
| writes: "i < length bs \<Longrightarrow> 0 < bs ! i \<Longrightarrow> log_write b s = Inr s' \<Longrightarrow> log_step (s, bs) (s', bs[i := bs ! i - 1])"
| ends: "i < length bs \<Longrightarrow> end_op s = Inr s' \<Longrightarrow> log_step (s, bs) (s', take i bs @ drop (Suc i) bs)"

definition reserved :: "'z lst \<Rightarrow> nat list \<Rightarrow> bool" where
  "reserved s bs \<longleftrightarrow> 0 \<le> lh_n s \<and> lh_n s + int (sum_list bs) \<le> LOGSIZE \<and> outstanding s = int (length bs) \<and>
     (\<forall>b\<in>set bs. b \<le> MAXOPBLOCKS) \<and> \<not> committing s"

lemma more_log:
  fixes s s' :: "'z lst"
  assumes "bio_state.more s' = bio_state.more s"
  shows "lh_n s' = lh_n s \<and> outstanding s' = outstanding s \<and> committing s' = committing s \<and> log_size s' = log_size s \<and>
    log_start s' = log_start s \<and> log_dev s' = log_dev s \<and> lh_block s' = lh_block s"
  using assms by (cases s; cases s') simp

lemma bget_more: "bget d b s = Inr (i, s') \<Longrightarrow> bio_state.more s' = bio_state.more s"
  unfolding bget_def by (auto simp: bindE_def elim!: acquire_buf split: option.splits sum.splits)

lemma bread_more: "bread d b s = Inr (i, s') \<Longrightarrow> bio_state.more s' = bio_state.more s"
  unfolding bread_def
  by (auto simp: bindE_def disk_transfer_def split: sum.splits if_splits dest!: bget_more)

lemma bwrite_more: "bwrite i s = Inr s' \<Longrightarrow> bio_state.more s' = bio_state.more s"
  by (auto simp: bwrite_def disk_transfer_def split: if_splits)

lemma brelse_more: "brelse i s = Inr s' \<Longrightarrow> bio_state.more s' = bio_state.more s"
  by (auto simp: brelse_def Let_def releasesleep_def link_front_fields split: if_splits)

lemma foldE_keeps:
  assumes "foldE f xs s = Inr s'" and "\<And>x s s'. f x s = Inr s' \<Longrightarrow> P s' = P s"
  shows "P s' = P s"
  using assms(1)
proof (induction xs arbitrary: s)
  case (Cons x xs)
  then obtain t where "f x s = Inr t" "foldE f xs t = Inr s'" by (auto simp: bindE_def split: sum.splits)
  then show ?case using Cons.IH assms(2) by metis
qed simp

lemma set_data_more [simp]: "bio_state.more (set_data b d s) = bio_state.more s"
  by (simp add: set_data_def)

lemma bunpin_more [simp]: "bio_state.more (bunpin b s) = bio_state.more s"
  by (simp add: bunpin_def)

lemmas bio_more = bread_more bwrite_more brelse_more

lemma write_log_one_more: "write_log_one k s = Inr s' \<Longrightarrow> bio_state.more s' = bio_state.more s"
  unfolding write_log_one_def by (auto simp: bindE_def split: sum.splits dest!: bio_more)

lemma install_one_more: "install_one r k s = Inr s' \<Longrightarrow> bio_state.more s' = bio_state.more s"
  unfolding install_one_def by (auto simp: bindE_def Let_def split: sum.splits if_splits dest!: bio_more)

lemma write_head_more: "write_head s = Inr s' \<Longrightarrow> bio_state.more s' = bio_state.more s"
  unfolding write_head_def by (auto simp: bindE_def split: sum.splits dest!: bio_more)

lemma commit_fields:
  assumes "commit s = Inr s'"
  shows "lh_n s' = (if lh_n s > 0 then 0 else lh_n s)" "outstanding s' = outstanding s" "log_size s' = log_size s"
proof -
  have "lh_n s' = (if lh_n s > 0 then 0 else lh_n s) \<and> outstanding s' = outstanding s \<and> log_size s' = log_size s"
  proof (cases "lh_n s > 0")
    case True
    then obtain t u v where "write_log s = Inr t" "write_head t = Inr u" "install_trans False u = Inr v"
      and w: "write_head (v\<lparr>lh_n := 0\<rparr>) = Inr s'"
      using assms by (auto simp: commit_def bindE_def split: sum.splits)
    then have "bio_state.more v = bio_state.more s"
      using foldE_keeps [of write_log_one _ s t bio_state.more] write_log_one_more write_head_more
        foldE_keeps [of "install_one False" _ u v bio_state.more] install_one_more
      unfolding write_log_def install_trans_def by metis
    then show ?thesis using True more_log [of v s] more_log [OF write_head_more [OF w]] by simp
  next
    case False
    then show ?thesis using assms by (simp add: commit_def)
  qed
  then show "lh_n s' = (if lh_n s > 0 then 0 else lh_n s)" "outstanding s' = outstanding s" "log_size s' = log_size s"
    by blast+
qed

lemma wakeup_log [simp]:
  fixes s :: "'z lst"
  shows "lh_n (wakeup c s) = lh_n s" "outstanding (wakeup c s) = outstanding s"
    "committing (wakeup c s) = committing s" "log_size (wakeup c s) = log_size s"
  using more_log [of "wakeup c s" s] by simp_all

lemma end_op_fields:
  assumes "end_op s = Inr s'" and "0 \<le> lh_n s"
  shows "outstanding s' = outstanding s - 1 \<and> \<not> committing s' \<and> \<not> committing s \<and> log_size s' = log_size s \<and>
    lh_n s' = (if outstanding s = 1 then 0 else lh_n s)"
proof (cases "outstanding s = 1")
  case True
  then obtain t where "commit (s\<lparr>outstanding := 0, committing := True\<rparr>) = Inr t" "\<not> committing s"
      "s' = wakeup (Some ChanLog) (t\<lparr>committing := False\<rparr>)"
    using assms by (auto simp: end_op_def Let_def bindE_def split: sum.splits if_splits)
  then show ?thesis using True assms(2) commit_fields [of "s\<lparr>outstanding := 0, committing := True\<rparr>" t] by auto
next
  case False
  then show ?thesis using assms by (auto simp: end_op_def Let_def split: if_splits)
qed

lemma sum_list_remove: "i < length bs \<Longrightarrow> sum_list (take i bs @ drop (Suc i) bs) + bs ! i = sum_list (bs :: nat list)"
  using arg_cong [OF id_take_nth_drop [of i bs], of sum_list] by simp

lemma sum_list_bound: "(\<And>b. b \<in> set bs \<Longrightarrow> b \<le> m) \<Longrightarrow> sum_list bs \<le> length bs * (m :: nat)"
  by (induction bs) fastforce+

lemma reserved_step:
  assumes "log_step (s, bs) (s', bs')" and "reserved s bs"
  shows "reserved s' bs' \<and> log_size s' = log_size s"
  using assms(1)
proof cases
  case begins
  have "int (sum_list bs) \<le> outstanding s * MAXOPBLOCKS"
    using sum_list_bound [of bs MAXOPBLOCKS] assms(2) by (auto simp: reserved_def)
  then show ?thesis using begins assms(2)
    by (auto simp: begin_op_def reserved_def sleep_def with_myproc_def split: if_splits option.splits)
next
  case (writes i b)
  have n: "0 \<le> lh_n s" using assms(2) by (simp add: reserved_def)
  have le: "sum_list (bs[i := bs ! i - 1]) + 1 = sum_list bs"
    using writes sum_list_update [of i bs "bs ! i - 1"] member_le_sum_list [of "bs ! i" bs] by simp
  have small: "\<forall>x\<in>set (bs[i := bs ! i - 1]). x \<le> MAXOPBLOCKS"
  proof
    fix x assume "x \<in> set (bs[i := bs ! i - 1])"
    then have "x = bs ! i - 1 \<or> x \<in> set bs" using set_update_subset_insert [of bs i] by blast
    moreover have "y \<le> MAXOPBLOCKS" if "y \<in> set bs" for y using that assms(2) by (simp add: reserved_def)
    ultimately show "x \<le> MAXOPBLOCKS" using nth_mem [OF writes(2)] by fastforce
  qed
  show ?thesis
    using log_write_cases [OF writes(4) n] assms(2) le small writes(1)
    by (auto simp: reserved_def bpin_def upd_buf_def)
next
  case (ends i)
  have n: "0 \<le> lh_n s" using assms(2) by (simp add: reserved_def)
  have "sum_list bs' \<le> sum_list bs" using sum_list_remove [of i bs] ends by simp
  moreover have "set bs' \<subseteq> set bs" using ends set_take_subset set_drop_subset by fastforce
  moreover have "sum_list bs' = 0" if "outstanding s = 1"
    using that ends assms(2) by (cases bs) (auto simp: reserved_def)
  ultimately show ?thesis
    using end_op_fields [OF ends(3) n] assms(2) ends by (auto simp: reserved_def)
qed

lemma reserved_reachable:
  assumes "log_step\<^sup>*\<^sup>* (s, bs) (s', bs')" and "reserved s bs"
  shows "reserved s' bs' \<and> log_size s' = log_size s"
  using assms(1)
proof (induction rule: rtranclp_induct2)
  case refl
  then show ?case using assms(2) by simp
next
  case (step t cs u ds)
  then show ?case using reserved_step [OF step(2)] by simp
qed

lemma boot_booted:
  fixes s :: "'z lst"
  assumes z: "\<And>i. b_dev (buf s i) \<noteq> ROOTDEV \<and> b_refcnt (buf s i) = 0 \<and> \<not> b_valid (buf s i)"
    and m: "myproc s \<noteq> None" and "log_dev s = ROOTDEV" and "unat (log_start s) + LOGSIZE + 1 < 2 ^ 32"
  shows "log_booted (binit s)" "disk (binit s) = disk s" "log_start (binit s) = log_start s"
    "log_slots (binit s) = log_slots s" "dwrites (binit s) = dwrites s"
proof -
  have nc: "\<not> bcached s b i" for b i using z by (simp add: bcached_def)
  note i = binit_inv [of s]
  have ls: "log_start (binit s) = log_start s" "log_dev (binit s) = log_dev s" "log_size (binit s) = log_size s"
    using binit_fields(11) [of s] by (cases s; cases "binit s"; simp)+
  have "refs s = (\<lambda>_. 0)" using nc by (simp add: fun_eq_iff refs_def first_not_cached)
  then show "log_booted (binit s)"
    using i nc z m assms(3,4) ls by (auto simp: log_booted_def)
  show "disk (binit s) = disk s" "log_start (binit s) = log_start s" "dwrites (binit s) = dwrites s"
    "log_slots (binit s) = log_slots s"
    using ls by (simp_all add: binit_fields log_slots_def)
qed

section \<open>Properties\<close>

text \<open>A transaction that is about to commit: no operation is open and no buffer is locked.\<close>

definition log_ready :: "'z lst \<Rightarrow> bool" where
  "log_ready s \<longleftrightarrow> log_quiet s \<and> lh_ok s \<and> 0 < lh_n s \<and> (\<forall>k<nat (lh_n s). refs s (lh_block s k) \<noteq> 0) \<and>
     card {c. refs s c \<noteq> 0} < NBUF \<and> hdr_n (disk s (log_start s)) = 0"

lemma ready_commit:
  assumes "log_ready s"
  shows "\<exists>s'. commit s = Inr s' \<and> bio_inv s' \<and> lh_n s' = 0 \<and> dwrites s' = dwrites s @ commit_writes s \<and>
    disk s' = apply_writes (commit_writes s) (disk s) \<and> content s' = apply_writes (commit_writes s) (content s)"
proof -
  have "log_quiet s" "lh_ok s" "0 < lh_n s" "\<forall>k<nat (lh_n s). refs s (lh_block s k) \<noteq> 0"
    "card {c. refs s c \<noteq> 0} < NBUF"
    using assms by (simp_all add: log_ready_def)
  from commit_law [OF this] show ?thesis by blast
qed

text \<open>Two concrete states: a booted machine, and one with a transaction of one block.\<close>

definition lst0 :: "unit lst" where
  "lst0 = \<lparr>mem = (\<lambda>_. 0), freelist = 0, kend = KERNBASE, kernel_pagetable = 0, satp = 0,
     proc = (\<lambda>_. proc0\<lparr>p_state := RUNNING, p_pid := 1\<rparr>), nextpid = 2, initproc = Some 0,
     cpu_proc = (\<lambda>_. Some 0), hart = 0, ticks = 0,
     topp = \<lparr>uptime = 0, total_process = 0, running_process = 0, sleeping_process = 0\<rparr>,
     trampoline = 0, forkret_pc = 0, cons_out = [],
     buf = (\<lambda>_. \<lparr>b_valid = False, b_disk = False, b_dev = 0, b_blockno = 0, b_lock = initsleeplock,
       b_refcnt = 0, b_prev = 0, b_next = 0, b_data = (\<lambda>_. 0)\<rparr>),
     disk = (\<lambda>_ _. 0), dwrites = [], log_start = 2, log_size = LOGSIZE, outstanding = 0, committing = False,
     log_dev = ROOTDEV, lh_n = 0, lh_block = (\<lambda>_. 0)\<rparr>"

definition lst1 :: "unit lst" where
  "lst1 = binit (lst0\<lparr>lh_n := 1, lh_block := (\<lambda>_. 100),
     buf := (buf lst0)(0 := (buf lst0 0)\<lparr>b_valid := True, b_dev := ROOTDEV, b_blockno := 100,
       b_refcnt := 1, b_data := (\<lambda>_. 7)\<rparr>)\<rparr>)"

lemma lst0_booted: "log_booted (binit lst0)" "disk (binit lst0) = (\<lambda>_ _. 0)" "log_start (binit lst0) = 2"
  "log_slots (binit lst0) = 29" "dwrites (binit lst0) = []"
  using boot_booted [of lst0] by (simp_all add: lst0_def myproc_def cpuid_def log_slots_def)

lemma lst1_views: "bio_inv lst1" "content lst1 = (\<lambda>b. if b = 100 then (\<lambda>_. 7) else (\<lambda>_. 0))"
  "refs lst1 = (\<lambda>b. if b = 100 then 1 else 0)" "held lst1 b = False"
proof -
  define s where "s = lst0\<lparr>lh_n := 1, lh_block := (\<lambda>_. 100),
     buf := (buf lst0)(0 := (buf lst0 0)\<lparr>b_valid := True, b_dev := ROOTDEV, b_blockno := 100,
       b_refcnt := 1, b_data := (\<lambda>_. 7)\<rparr>)\<rparr>"
  have bc: "bcached s b i \<longleftrightarrow> i = 0 \<and> b = 100" for b i by (auto simp: bcached_def s_def lst0_def)
  have m: "myproc s \<noteq> None" by (simp add: myproc_def cpuid_def s_def lst0_def)
  have d: "b_dev (buf s i) = ROOTDEV" if "i < NBUF" "b_refcnt (buf s i) \<noteq> 0 \<or> b_valid (buf s i)" for i
    using that by (auto simp: s_def lst0_def split: if_splits)
  have e: "b_data (buf s i) = disk s (b_blockno (buf s i))" if "i < NBUF" "b_refcnt (buf s i) = 0" "b_valid (buf s i)" for i
    using that by (auto simp: s_def lst0_def split: if_splits)
  have c: "i = j" if "bcached s b i" "bcached s b j" for b i j using that by (simp add: bc)
  note inv = binit_inv [OF c d e m]
  have f1: "first_index (bcached s b) NBUF = (if b = 100 then Some 0 else None)" for b
    by (auto simp: bc first_index_Some first_index_None)
  have f2: "first_index (\<lambda>i. bcached s b i \<and> b_valid (buf s i)) NBUF = (if b = 100 then Some 0 else None)" for b
  proof -
    have "b_valid (buf s 0)" by (simp add: s_def)
    then show ?thesis by (auto simp: bc first_index_Some first_index_None)
  qed
  show "bio_inv lst1" "held lst1 b = False" using inv by (simp_all add: lst1_def s_def)
  have v: "b_data (buf s 0) = (\<lambda>_. 7)" "b_refcnt (buf s 0) = 1" "disk s = (\<lambda>_ _. 0)"
    by (simp_all add: s_def lst0_def)
  have "content s = (\<lambda>b. if b = 100 then (\<lambda>_. 7) else (\<lambda>_. 0))"
    by (simp add: fun_eq_iff content_def f2 v)
  then show "content lst1 = (\<lambda>b. if b = 100 then (\<lambda>_. 7) else (\<lambda>_. 0))" using inv(2) by (simp add: lst1_def s_def)
  have "refs s = (\<lambda>b. if b = 100 then 1 else 0)" by (simp add: fun_eq_iff refs_def f1 v)
  then show "refs lst1 = (\<lambda>b. if b = 100 then 1 else 0)" using inv(3) by (simp add: lst1_def s_def)
qed

lemma lst1_fields: "log_start lst1 = 2" "log_dev lst1 = ROOTDEV" "lh_n lst1 = 1" "lh_block lst1 = (\<lambda>_. 100)"
  "log_slots lst1 = 29" "disk lst1 = (\<lambda>_ _. 0)" "dwrites lst1 = []"
proof -
  have "bio_state.more lst1 = bio_state.more (lst0\<lparr>lh_n := 1, lh_block := (\<lambda>_. 100)\<rparr>)"
    by (simp add: lst1_def binit_fields)
  from more_log [OF this]
  show "log_start lst1 = 2" "log_dev lst1 = ROOTDEV" "lh_n lst1 = 1" "lh_block lst1 = (\<lambda>_. 100)"
    "log_slots lst1 = 29"
    by (simp_all add: lst0_def log_slots_def)
  show "disk lst1 = (\<lambda>_ _. 0)" "dwrites lst1 = []" by (simp_all add: lst1_def binit_fields lst0_def)
qed

lemma hdr_n_zero: "hdr_n (\<lambda>_. 0) = 0"
  by (simp add: hdr_n_def load32_def load_bytes_def upt_rec)

lemma lst1_ready: "log_ready lst1"
proof -
  have "{c. refs lst1 c \<noteq> 0} = {100}" by (auto simp: lst1_views)
  moreover have "100 \<notin> log_area 2 29"
  proof
    assume "100 \<in> log_area 2 29"
    then obtain k where "k < 29" "100 = log_block 2 k" by (auto simp: log_area_def)
    then show False using unat_log_block [of 2 k] by simp
  qed
  moreover have "inj_on (\<lambda>_. 100 :: u32) {..<Suc 0}" by (auto simp: inj_on_def)
  ultimately show ?thesis
    by (simp add: log_ready_def log_quiet_def lh_ok_def lst1_views lst1_fields hdr_n_zero)
qed

text \<open>
  C2: \<open>commit\<close> of a transaction of n blocks succeeds, writes each block of the transaction to
  its place on disk with the contents it has in the cache, leaves every other block outside
  the log alone, and leaves an empty log in memory and on disk.
\<close>

theorem commit_installs:
  assumes "log_ready s"
  shows "\<exists>s'. commit s = Inr s' \<and> lh_n s' = 0 \<and> hdr_n (disk s' (log_start s)) = 0 \<and>
    (\<forall>b. b \<notin> log_area (log_start s) (log_slots s) \<longrightarrow>
      disk s' b = (if b \<in> home s then content s b else disk s b) \<and> content s' b = content s b)"
proof -
  have lh: "lh_ok s" using assms by (simp add: log_ready_def)
  obtain s' where "commit s = Inr s'" "lh_n s' = 0" "disk s' = apply_writes (commit_writes s) (disk s)"
    "content s' = apply_writes (commit_writes s) (content s)"
    using ready_commit [OF assms] by blast
  then show ?thesis using commit_disk_outside [OF lh] commit_header [of s] by auto
qed

theorem commit_installs_witness:
  "\<exists>s'. commit lst1 = Inr s' \<and> disk s' 100 = (\<lambda>_. 7) \<and> disk s' 101 = (\<lambda>_. 0) \<and> hdr_n (disk s' 2) = 0"
proof -
  have "b \<notin> log_area 2 29" if "unat b \<ge> 100" for b
  proof
    assume "b \<in> log_area 2 29"
    then show False using that unat_log_block [of 2] by (auto simp: log_area_def)
  qed
  from this [of 100] this [of 101] show ?thesis
    using commit_installs [OF lst1_ready] by (auto simp: home_def lst1_fields lst1_views)
qed

text \<open>
  C1: The transaction is atomic across a crash.  Cut the disk writes of \<open>commit\<close> after any
  number of them and boot with an empty cache: \<open>recover_from_log\<close> succeeds, clears the log,
  and every block outside the log has its contents from before the commit if the cut came
  before the header was written, and its committed contents otherwise.
\<close>

theorem log_crash_atomic:
  assumes ready: "log_ready s" and com: "commit s = Inr s'"
    and boot: "log_booted r" "log_start r = log_start s" "log_slots r = log_slots s"
    and cut: "disk r = apply_writes (take k (drop (length (dwrites s)) (dwrites s'))) (disk s)"
  shows "\<exists>r'. recover_from_log r = Inr r' \<and> lh_n r' = 0 \<and> hdr_n (disk r' (log_start s)) = 0 \<and>
    (\<forall>b. b \<notin> log_area (log_start s) (log_slots s) \<longrightarrow>
      disk r' b = (if k \<le> nat (lh_n s) then disk s b else disk s' b))"
proof -
  have q: "log_quiet s" and lh: "lh_ok s" and h: "hdr_n (disk s (log_start s)) = 0"
    using ready by (simp_all add: log_ready_def)
  have s': "dwrites s' = dwrites s @ commit_writes s" "disk s' = apply_writes (commit_writes s) (disk s)"
    using ready_commit [OF ready] com by auto
  then have r: "disk r = apply_writes (take k (commit_writes s)) (disk s)" using cut by simp
  have "hdr_ok (log_start r) (log_slots r) (disk r (log_start r))"
    using cut_header_ok(1) [OF q lh h] by (simp add: r boot)
  from recover_law [OF boot(1) this] obtain r' where r': "recover_from_log r = Inr r'" "lh_n r' = 0"
    "disk r' = recovered (log_start s) (disk r)"
    by (auto simp: recovered_def boot)
  moreover have "disk s' b = installed s b" if "b \<notin> log_area (log_start s) (log_slots s)" for b
    using commit_disk_outside [OF lh that] by (simp add: s' installed_def)
  ultimately show ?thesis
    using cut_header_ok(2) [OF q lh h] by (auto simp: recovered_header r)
qed

theorem log_crash_atomic_witness:
  "\<exists>s' (r :: unit lst) r'. commit lst1 = Inr s' \<and> log_booted r \<and> disk r = apply_writes (take 2 (dwrites s')) (disk lst1) \<and>
     recover_from_log r = Inr r' \<and> disk r' 100 = disk s' 100"
proof -
  obtain s' where s': "commit lst1 = Inr s'" using ready_commit [OF lst1_ready] by blast
  define r where "r = binit (lst0\<lparr>disk := apply_writes (take 2 (dwrites s')) (disk lst1)\<rparr>)"
  have r: "log_booted r" "log_start r = 2" "log_slots r = 29" "disk r = apply_writes (take 2 (dwrites s')) (disk lst1)"
    using boot_booted [of "lst0\<lparr>disk := apply_writes (take 2 (dwrites s')) (disk lst1)\<rparr>"]
    unfolding r_def by (simp_all add: lst0_def myproc_def cpuid_def log_slots_def)
  have "100 \<notin> log_area 2 29" using lst1_ready by (simp add: log_ready_def lh_ok_def lst1_fields)
  moreover have "disk r = apply_writes (take 2 (drop (length (dwrites lst1)) (dwrites s'))) (disk lst1)"
    by (simp add: r(4) lst1_fields)
  ultimately show ?thesis
    using log_crash_atomic [OF lst1_ready s' r(1), of 2] r s' unfolding lst1_fields by fastforce
qed

text \<open>
  C3: Recovery can itself be interrupted.  Cut the disk writes of a \<open>recover_from_log\<close> after
  any number of them and boot again: the second recovery succeeds and leaves every block
  but the log header as the uninterrupted one would have.
\<close>

theorem recovery_restartable:
  assumes boot: "log_booted r" and ok: "hdr_ok (log_start r) (log_slots r) (disk r (log_start r))"
    and rec: "recover_from_log r = Inr r'"
    and again: "log_booted q" "log_start q = log_start r" "log_slots q = log_slots r"
    and cut: "disk q = apply_writes (take j (drop (length (dwrites r)) (dwrites r'))) (disk r)"
  shows "\<exists>q'. recover_from_log q = Inr q' \<and> lh_n q' = 0 \<and> (\<forall>b. b \<noteq> log_start r \<longrightarrow> disk q' b = disk r' b)"
proof -
  let ?st = "log_start r"
  have r': "dwrites r' = dwrites r @ recovery_writes ?st (disk r)" "disk r' = recovered ?st (disk r)"
    using recover_law [OF boot ok] rec by (auto simp: recovered_def)
  then have q: "disk q = apply_writes (take j (recovery_writes ?st (disk r))) (disk r)" using cut by simp
  have "hdr_ok (log_start q) (log_slots q) (disk q (log_start q))"
    using recovery_cut(1) [of ?st "log_slots r" "disk r" j] ok by (simp add: again q)
  from recover_law [OF again(1) this] obtain q' where q': "recover_from_log q = Inr q'" "lh_n q' = 0"
      "disk q' = recovered ?st (disk q)" by (auto simp: recovered_def again)
  then show ?thesis using recovery_cut(2) [of ?st "log_slots r" "disk r" _ j] ok r'(2) by (intro exI [of _ q']) (simp add: q)
qed

theorem recovery_restartable_witness:
  "\<exists>r' (q :: unit lst) q'. recover_from_log (binit lst0) = Inr r' \<and> log_booted q \<and>
     recover_from_log q = Inr q' \<and> disk q' 100 = disk r' 100"
proof -
  have ok: "hdr_ok (log_start (binit lst0)) (log_slots (binit lst0)) (disk (binit lst0) (log_start (binit lst0)))"
    by (simp add: lst0_booted hdr_ok_def hdr_n_zero)
  obtain r' where r': "recover_from_log (binit lst0) = Inr r'" using recover_law [OF lst0_booted(1) ok] by blast
  show ?thesis
    using recovery_restartable [OF lst0_booted(1) ok r' lst0_booted(1) refl refl, of 0] r' lst0_booted by fastforce
qed

lemma log_write_law:
  assumes inv: "bio_inv s" and h: "handle s i b" and lh: "lh_ok s" and small: "refs s b + 1 < 2 ^ 32"
    and out: "b \<notin> log_area (log_start s) (log_slots s)" and w: "log_write i s = Inr s'"
  shows "lh_ok s' \<and> home s' = insert b (home s) \<and> content s' = content s \<and> disk s' = disk s \<and>
    lh_n s' = (if b \<in> home s then lh_n s else lh_n s + 1) \<and>
    refs s' = (if b \<in> home s then refs s else (refs s)(b := Suc (refs s b)))"
proof -
  have bn: "b_blockno (buf s i) = b" by (rule handle_refs(8) [OF inv h])
  have n: "0 \<le> lh_n s" by (rule lh_ok_n(3) [OF lh])
  from log_write_cases [OF w n] bn consider (old) "b \<in> home s" "s' = s"
    | (new) "b \<notin> home s" "lh_n s < LOGSIZE" "lh_n s < log_size s - 1"
        "s' = (bpin i s)\<lparr>lh_block := (lh_block s)(nat (lh_n s) := b), lh_n := lh_n s + 1\<rparr>" by auto
  then show ?thesis
  proof cases
    case old
    then show ?thesis using lh insert_absorb [OF old(1)] unfolding old(2) by simp
  next
    case new
    let ?n = "nat (lh_n s)" and ?bl = "(lh_block s)(nat (lh_n s) := b)"
    let ?t = "bpin i s"
    have pin: "bview ?t = (bview s)\<lparr>vrefs := (refs s)(b := Suc (refs s b))\<rparr>"
      using bpin_law [OF inv h small] by blast
    have tv: "content ?t = content s" "disk ?t = disk s" "refs ?t = (refs s)(b := Suc (refs s b))"
      using arg_cong [OF pin, of vcontent] arg_cong [OF pin, of vdisk] arg_cong [OF pin, of vrefs] by simp_all
    have tf: "lh_n ?t = lh_n s" "lh_block ?t = lh_block s" "log_start ?t = log_start s" "log_slots ?t = log_slots s"
      by (simp_all add: bpin_def upd_buf_def log_slots_def)
    have s': "s' = ?t\<lparr>lh_block := ?bl, lh_n := lh_n s + 1\<rparr>" using new(4) .
    have vs: "content s' = content s" "disk s' = disk s" "refs s' = (refs s)(b := Suc (refs s b))"
      using same_cache(1,2) [of s' ?t] by (simp_all add: s' tv myproc_def cpuid_def)
    have hs: "home s' = insert b (home s)" using home_Suc [of ?t b] n by (simp add: s' tf home_def)
    have sl: "log_slots s' = log_slots s" "log_start s' = log_start s" using tf(3,4) by (simp_all add: s' log_slots_def)
    have "inj_on ?bl {..<Suc ?n}"
    proof -
      have "inj_on ?bl {..<?n}" using lh by (auto simp: lh_ok_def inj_on_def)
      moreover have "b \<notin> ?bl ` {..<?n}" using new(1) by (auto simp: home_def)
      ultimately show ?thesis by (simp add: lessThan_Suc)
    qed
    moreover have "?bl k \<notin> log_area (log_start s) (log_slots s)" if "k < Suc ?n" for k
      using that out lh by (auto simp: lh_ok_def less_Suc_eq)
    moreover have "nat (lh_n s + 1) = Suc ?n" using n by simp
    moreover have "Suc ?n \<le> log_slots s" using new(2,3) n unfolding log_slots_def by linarith
    ultimately have "lh_ok s'" unfolding lh_ok_def sl by (simp add: s' n)
    then show ?thesis using new(1) hs vs by (simp add: s')
  qed
qed

text \<open>
  C6: \<open>log_write\<close> adds the buffer's block to the transaction once: a block that is already
  there is absorbed and nothing changes, a new one is appended and its buffer pinned, so
  that it stays in the cache until the commit.  The transaction stays well formed.
\<close>

theorem log_write_absorbs:
  assumes inv: "bio_inv s" and h: "handle s i b" and lh: "lh_ok s" and small: "refs s b + 1 < 2 ^ 32"
    and out: "b \<notin> log_area (log_start s) (log_slots s)" and w: "log_write i s = Inr s'"
  shows "lh_ok s' \<and> home s' = insert b (home s) \<and> content s' = content s \<and> disk s' = disk s \<and>
    lh_n s' = (if b \<in> home s then lh_n s else lh_n s + 1) \<and>
    refs s' = (if b \<in> home s then refs s else (refs s)(b := Suc (refs s b)))"
  using assms by (rule log_write_law)

theorem log_write_absorbs_witness:
  "\<exists>i t s'. bread ROOTDEV 100 (binit (lst0\<lparr>outstanding := 1\<rparr>)) = Inr (i, t) \<and> log_write i t = Inr s' \<and> home s' = {100}"
proof -
  let ?s = "binit (lst0\<lparr>outstanding := 1\<rparr>)"
  have boot: "log_booted ?s"
    by (rule boot_booted) (simp_all add: lst0_def myproc_def cpuid_def)
  then have inv: "bio_inv ?s" "refs ?s = (\<lambda>_. 0)" "\<not> held ?s 100" by (simp_all add: log_booted_def)
  obtain i t where rd: "bread ROOTDEV 100 ?s = Inr (i, t)" using bread_total [OF inv(1,3)] inv(2) by auto
  have h: "bio_inv t" "handle t i 100" "refs t 100 = 1" "bio_ext t = bio_ext ?s"
    using bread_law [OF inv(1) rd] arg_cong [of "bview t" _ vrefs] inv(2) by (simp_all add: bview_def)
  have "bio_state.more t = bio_state.more (lst0\<lparr>outstanding := 1\<rparr>)"
    using h(4) by (simp add: bio_ext_def binit_fields)
  from more_log [OF this] have f: "lh_n t = 0" "outstanding t = 1" "log_size t = LOGSIZE" "log_start t = 2"
    by (simp_all add: lst0_def)
  have lh: "lh_ok t" "log_slots t = 29" by (simp_all add: lh_ok_def f log_slots_def)
  moreover have "100 \<notin> log_area 2 29" using lst1_ready by (simp add: log_ready_def lh_ok_def lst1_fields)
  moreover obtain s' where "log_write i t = Inr s'" using log_write_succeeds [of t i] by (auto simp: f)
  ultimately show ?thesis
    using log_write_absorbs [OF h(1,2), of s'] rd by (auto simp: f h(3) home_def)
qed

text \<open>
  C4: The reservation made by \<open>begin_op\<close> is enough.  However the operations of several
  processes interleave, the log never holds more than LOGSIZE blocks, and an operation that
  has added fewer than MAXOPBLOCKS blocks can add another without a panic, provided the log
  on disk has room for LOGSIZE blocks after its header.
\<close>

theorem log_reservation:
  assumes "log_step\<^sup>*\<^sup>* (s, []) (s', bs)" and "lh_n s = 0" and "outstanding s = 0" and "\<not> committing s"
    and "log_size s > LOGSIZE" and "i < length bs" and "0 < bs ! i"
  shows "lh_n s' < LOGSIZE \<and> outstanding s' = int (length bs) \<and> (\<exists>s''. log_write b s' = Inr s'')"
proof -
  have r: "reserved s' bs" "log_size s' = log_size s"
    using reserved_reachable [OF assms(1)] assms(2-4) by (simp_all add: reserved_def)
  have "bs ! i \<le> sum_list bs" using assms(6) by (simp add: elem_le_sum_list)
  then have n: "lh_n s' < LOGSIZE" using r(1) assms(7) by (auto simp: reserved_def)
  moreover have "1 \<le> outstanding s'" "outstanding s' = int (length bs)" using r(1) assms(6) by (auto simp: reserved_def)
  ultimately show ?thesis using assms(5) r(2) log_write_succeeds [of s' b] by simp
qed

theorem log_reservation_witness:
  "\<exists>s' s''. log_step\<^sup>*\<^sup>* (lst0\<lparr>log_size := 31\<rparr>, []) (s', [MAXOPBLOCKS]) \<and> log_write 0 s' = Inr s''"
proof -
  let ?s' = "lst0\<lparr>log_size := 31, outstanding := 1\<rparr>"
  have "begin_op (lst0\<lparr>log_size := 31\<rparr>) = Inr ?s'" by (simp add: begin_op_def lst0_def)
  then have "log_step\<^sup>*\<^sup>* (lst0\<lparr>log_size := 31\<rparr>, []) (?s', [MAXOPBLOCKS])" by (intro r_into_rtranclp log_step.begins)
  then show ?thesis using log_reservation [of "lst0\<lparr>log_size := 31\<rparr>" ?s' "[MAXOPBLOCKS]" 0 0] by (auto simp: lst0_def)
qed

lemma log_writes_run:
  assumes "lh_n s = 0" and "log_size s = LOGSIZE" and "outstanding s = 3"
    and "inj_on (\<lambda>i. b_blockno (buf s i)) {..<29}" and "k \<le> 29"
  shows "\<exists>t. foldE log_write [0..<k] s = Inr t \<and> lh_n t = int k \<and> log_size t = LOGSIZE \<and> outstanding t = 3 \<and>
    (\<forall>i. b_blockno (buf t i) = b_blockno (buf s i)) \<and> (\<forall>i<k. lh_block t i = b_blockno (buf s i))"
  using assms(5)
proof (induction k)
  case 0
  then show ?case using assms by simp
next
  case (Suc k)
  then obtain t where t: "foldE log_write [0..<k] s = Inr t" "lh_n t = int k" "log_size t = LOGSIZE"
    "outstanding t = 3" "\<And>i. b_blockno (buf t i) = b_blockno (buf s i)" "\<And>i. i < k \<Longrightarrow> lh_block t i = b_blockno (buf s i)"
    by auto
  have new: "b_blockno (buf t k) \<notin> home t"
  proof
    assume "b_blockno (buf t k) \<in> home t"
    then obtain i where "i < k" "b_blockno (buf s k) = b_blockno (buf s i)" using t(2,5,6) by (auto simp: home_def)
    then show False using inj_onD [OF assms(4), of k i] Suc.prems by simp
  qed
  obtain u where u: "log_write k t = Inr u" using log_write_succeeds [of t k] t(2-4) Suc.prems by auto
  have "u = (bpin k t)\<lparr>lh_block := (lh_block t)(k := b_blockno (buf t k)), lh_n := lh_n t + 1\<rparr>"
    using log_write_cases [OF u] new t(2) by simp
  then show ?case using t u by (simp add: foldE_append bpin_def upd_buf_def less_Suc_eq)
qed

text \<open>
  C7: The log that mkfs lays out is one block too small for that.  mkfs gives the log LOGSIZE
  blocks including the header, so it holds LOGSIZE - 1 blocks, while \<open>begin_op\<close> admits three
  operations of MAXOPBLOCKS blocks: the thirtieth block, within every budget, panics.
\<close>

theorem log_one_block_short:
  assumes "lh_n s = 0" and "outstanding s = 0" and "\<not> committing s" and "log_size s = LOGSIZE"
    and "inj_on (\<lambda>i. b_blockno (buf s i)) {..<29}"
  shows "\<exists>s3 t. foldE (\<lambda>_. begin_op) [0..<3] s = Inr s3 \<and> foldE log_write [0..<3 * MAXOPBLOCKS - 1] s3 = Inr t \<and>
    log_write 29 t = Inl (Panic ''too big a transaction'')"
proof -
  let ?s3 = "s\<lparr>outstanding := 3\<rparr>"
  have b: "foldE (\<lambda>_. begin_op) [0..<3] s = Inr ?s3" using assms(1-3) by (simp add: begin_op_def upt_rec)
  obtain t where "foldE log_write [0..<29] ?s3 = Inr t" "lh_n t = 29" "log_size t = LOGSIZE"
    using log_writes_run [of ?s3 29] assms by auto
  then show ?thesis using b by (auto simp: log_write_def)
qed

theorem log_one_block_short_witness:
  "\<exists>s3 t. foldE (\<lambda>_. begin_op) [0..<3] (lst0\<lparr>buf := (\<lambda>i. (buf lst0 i)\<lparr>b_blockno := of_nat i\<rparr>)\<rparr>) = Inr s3 \<and>
     foldE log_write [0..<3 * MAXOPBLOCKS - 1] s3 = Inr t \<and> log_write 29 t = Inl (Panic ''too big a transaction'')"
proof (rule log_one_block_short)
  show "inj_on (\<lambda>i. b_blockno (buf (lst0\<lparr>buf := (\<lambda>i. (buf lst0 i)\<lparr>b_blockno := of_nat i\<rparr>)\<rparr>) i)) {..<29}"
    by (auto simp: inj_on_def of_nat_inverse dest!: arg_cong [of _ _ unat] simp: unat_of_nat)
qed (simp_all add: lst0_def)

section \<open>Waiting for the log\<close>

text \<open>A process that sleeps on the log stays asleep through the operations of the cache.\<close>

definition waits_for_log :: "nat \<Rightarrow> nat option \<Rightarrow> 'z lst \<Rightarrow> bool" where
  "waits_for_log p m s \<longleftrightarrow> p_state (proc s p) = SLEEPING \<and> p_chan (proc s p) = Some ChanLog \<and> myproc s = m"

lemma bget_waits: "bget d b s = Inr (i, s') \<Longrightarrow> waits_for_log p m s' = waits_for_log p m s"
  unfolding bget_def by (auto simp: waits_for_log_def bindE_def elim!: acquire_buf split: option.splits sum.splits)

lemma disk_transfer_waits [simp]: "waits_for_log p m (disk_transfer b w s) = waits_for_log p m s"
  by (simp add: disk_transfer_def waits_for_log_def myproc_def cpuid_def)

lemma upd_buf_waits [simp]: "waits_for_log p m (upd_buf b f s) = waits_for_log p m s"
  by (simp add: waits_for_log_def)

lemma bread_waits: "bread d b s = Inr (i, s') \<Longrightarrow> waits_for_log p m s' = waits_for_log p m s"
  unfolding bread_def by (auto simp: bindE_def split: sum.splits if_splits dest!: bget_waits)

lemma bwrite_waits: "bwrite b s = Inr s' \<Longrightarrow> waits_for_log p m s' = waits_for_log p m s"
  by (auto simp: bwrite_def split: if_splits)

lemma link_front_waits [simp]: "waits_for_log p m (link_front b s) = waits_for_log p m s"
  by (simp add: waits_for_log_def link_front_fields)

lemma releasesleep_waits [simp]:
  "waits_for_log p m (releasesleep (ChanBufLock b) (set_buf_lock b) s) = waits_for_log p m s"
  by (auto simp: waits_for_log_def releasesleep_def wakeup_table woken_def)

lemma brelse_waits: "brelse b s = Inr s' \<Longrightarrow> waits_for_log p m s' = waits_for_log p m s"
  by (auto simp: brelse_def Let_def split: if_splits)

lemma set_data_waits [simp]: "waits_for_log p m (set_data b d s) = waits_for_log p m s"
  by (simp add: set_data_def)

lemma bunpin_waits [simp]: "waits_for_log p m (bunpin b s) = waits_for_log p m s"
  by (simp add: bunpin_def)

lemmas bio_waits = bread_waits bwrite_waits brelse_waits

lemma write_log_one_waits: "write_log_one k s = Inr s' \<Longrightarrow> waits_for_log p m s' = waits_for_log p m s"
  unfolding write_log_one_def by (auto simp: bindE_def split: sum.splits dest!: bio_waits [where p = p and m = m])

lemma install_one_waits: "install_one r k s = Inr s' \<Longrightarrow> waits_for_log p m s' = waits_for_log p m s"
  unfolding install_one_def
  by (auto simp: bindE_def Let_def split: sum.splits if_splits dest!: bio_waits [where p = p and m = m])

lemma write_head_waits: "write_head s = Inr s' \<Longrightarrow> waits_for_log p m s' = waits_for_log p m s"
  unfolding write_head_def by (auto simp: bindE_def split: sum.splits dest!: bio_waits [where p = p and m = m])

lemma waits_lh_n [simp]: "waits_for_log p m (s\<lparr>lh_n := n\<rparr>) = waits_for_log p m s"
  by (simp add: waits_for_log_def myproc_def cpuid_def)

lemma commit_waits:
  assumes "commit s = Inr s'"
  shows "waits_for_log p m s' = waits_for_log p m s"
proof (cases "lh_n s > 0")
  case True
  then obtain t u v where "write_log s = Inr t" "write_head t = Inr u" "install_trans False u = Inr v"
    and "write_head (v\<lparr>lh_n := 0\<rparr>) = Inr s'"
    using assms by (auto simp: commit_def bindE_def split: sum.splits)
  then show ?thesis
    using foldE_keeps [of write_log_one _ s t "waits_for_log p m"] write_log_one_waits [of _ _ _ p m]
      foldE_keeps [of "install_one False" _ u v "waits_for_log p m"] install_one_waits [of False _ _ _ p m]
      write_head_waits [of t u p m] write_head_waits [of "v\<lparr>lh_n := 0\<rparr>" s' p m]
    unfolding write_log_def install_trans_def waits_lh_n by metis
next
  case False
  then show ?thesis using assms by (simp add: commit_def)
qed

text \<open>
  C5: No operation waits for the log for ever: a process that \<open>begin_op\<close> puts to sleep sleeps
  on the channel of the log, and every \<open>end_op\<close> that succeeds, whether or not it commits,
  makes every such process runnable, so that it tests the log again.
\<close>

theorem end_op_wakes_waiters:
  assumes "begin_op s = Inl (Asleep c t)" and "end_op u = Inr u'" and "p < NPROC" and "Some p \<noteq> myproc u"
    and "p_state (proc u p) = SLEEPING" and "p_chan (proc u p) = Some c"
  shows "p_state (proc u' p) = RUNNABLE"
proof -
  have c: "c = ChanLog"
    using assms(1) by (auto simp: begin_op_def sleep_def sched_def with_myproc_def split: if_splits option.splits)
  have wake: "p_state (proc (wakeup (Some ChanLog) v) p) = RUNNABLE" if "waits_for_log p (myproc u) v" for v
    using that assms(3,4) by (simp add: waits_for_log_def wakeup_table woken_def)
  have u: "waits_for_log p (myproc u) u" using assms(5,6) c by (simp add: waits_for_log_def)
  have upd: "waits_for_log p m (v\<lparr>outstanding := n, committing := b\<rparr>) = waits_for_log p m v"
    "waits_for_log p m (v\<lparr>outstanding := n\<rparr>) = waits_for_log p m v"
    "waits_for_log p m (v\<lparr>committing := b\<rparr>) = waits_for_log p m v" for m n b v
    by (simp_all add: waits_for_log_def myproc_def cpuid_def)
  show ?thesis
  proof (cases "outstanding u = 1")
    case True
    then obtain t where t: "commit (u\<lparr>outstanding := 0, committing := True\<rparr>) = Inr t"
        "u' = wakeup (Some ChanLog) (t\<lparr>committing := False\<rparr>)"
      using assms(2) by (auto simp: end_op_def Let_def bindE_def split: sum.splits if_splits)
    have "waits_for_log p (myproc u) t" using commit_waits [OF t(1), of p "myproc u"] u upd(1) by blast
    then show ?thesis unfolding t(2) by (intro wake) (simp add: upd)
  next
    case False
    then have "u' = wakeup (Some ChanLog) (u\<lparr>outstanding := outstanding u - 1\<rparr>)"
      using assms(2) by (auto simp: end_op_def Let_def split: if_splits)
    then show ?thesis using wake [of "u\<lparr>outstanding := outstanding u - 1\<rparr>"] u by (simp only: upd)
  qed
qed

theorem end_op_wakes_waiters_witness:
  "\<exists>c t u'. begin_op (lst0\<lparr>committing := True\<rparr>) = Inl (Asleep c t) \<and>
     end_op (lst0\<lparr>outstanding := 2, proc := (proc lst0)(3 := proc0\<lparr>p_state := SLEEPING, p_chan := Some c\<rparr>)\<rparr>) = Inr u' \<and>
     p_state (proc u' 3) = RUNNABLE"
proof -
  let ?u = "\<lambda>c. lst0\<lparr>outstanding := 2, proc := (proc lst0)(3 := proc0\<lparr>p_state := SLEEPING, p_chan := Some c\<rparr>)\<rparr>"
  obtain c t where b: "begin_op (lst0\<lparr>committing := True\<rparr>) = Inl (Asleep c t)"
    by (simp add: begin_op_def sleep_def sched_def upd_proc_def with_myproc_def myproc_def cpuid_def lst0_def)
  obtain u' where "end_op (?u c) = Inr u'" by (simp add: end_op_def lst0_def)
  then show ?thesis
    using b end_op_wakes_waiters [OF b, of "?u c" u' 3] by (auto simp: myproc_def cpuid_def lst0_def)
qed

end
