(* ===== verification/Fs.thy ===== *)
theory Fs
  imports LogSafe
begin

text \<open>
  kernel/fs.c: the block allocator, inodes, file contents, directories and path names.
  Inodes of the table are named by their index in \<open>itable.inode\<close>; a null inode pointer is
  None.  A path is the bytes of the C string before its null.  A transfer to or from file
  contents names its other end: an address (of the user when the flag is set), or a
  local object of the caller, whose bytes are returned or passed.
\<close>

unbundle bit_operations_syntax

section \<open>Data (kernel/fs.h, kernel/file.h, kernel/stat.h)\<close>

abbreviation (input) ROOTINO :: u32 where "ROOTINO \<equiv> 1"
abbreviation (input) FSMAGIC :: u32 where "FSMAGIC \<equiv> 0x10203040"
abbreviation (input) NDIRECT :: nat where "NDIRECT \<equiv> 12"
abbreviation (input) NINDIRECT :: nat where "NINDIRECT \<equiv> 256"
abbreviation (input) MAXFILE :: nat where "MAXFILE \<equiv> 268"
abbreviation (input) IPB :: nat where "IPB \<equiv> 16"
abbreviation (input) BPB :: nat where "BPB \<equiv> 8192"
abbreviation (input) DIRSIZ :: nat where "DIRSIZ \<equiv> 14"
abbreviation (input) DIRENT_SIZE :: nat where "DIRENT_SIZE \<equiv> 16"
abbreviation (input) DINODE_SIZE :: nat where "DINODE_SIZE \<equiv> 64"
abbreviation (input) T_DIR :: u16 where "T_DIR \<equiv> 1"
abbreviation (input) T_FILE :: u16 where "T_FILE \<equiv> 2"
abbreviation (input) T_DEVICE :: u16 where "T_DEVICE \<equiv> 3"

record superblock =
  sb_magic :: u32
  sb_size :: u32
  sb_nblocks :: u32
  sb_ninodes :: u32
  sb_nlog :: u32
  sb_logstart :: u32
  sb_inodestart :: u32
  sb_bmapstart :: u32

record inode =
  i_dev :: u32
  i_inum :: u32
  i_ref :: int
  i_lock :: sleeplock
  i_valid :: bool
  i_type :: u16
  i_major :: u16
  i_minor :: u16
  i_nlink :: u16
  i_size :: u32
  i_addrs :: "nat \<Rightarrow> u32"

record stat =
  st_dev :: u32
  st_ino :: u32
  st_type :: u16
  st_nlink :: u16
  st_size :: u64

record fs_state = log_state +
  sb :: superblock
  inode :: "nat \<Rightarrow> inode"

type_synonym 'z fss = "'z fs_state_scheme"

definition IBLOCK :: "u32 \<Rightarrow> superblock \<Rightarrow> u32" where
  "IBLOCK i b = i div 16 + sb_inodestart b"

definition BBLOCK :: "u32 \<Rightarrow> superblock \<Rightarrow> u32" where
  "BBLOCK i b = i div 8192 + sb_bmapstart b"

text \<open>The fields of \<open>struct dinode\<close> number k of an inode block.\<close>

definition get_dinode :: "block \<Rightarrow> nat \<Rightarrow> inode \<Rightarrow> inode" where
  "get_dinode d k ip =
     (let off = DINODE_SIZE * k in
      ip\<lparr>i_type := load16 d off, i_major := load16 d (off + 2), i_minor := load16 d (off + 4),
         i_nlink := load16 d (off + 6), i_size := load32 d (off + 8),
         i_addrs := (\<lambda>i. if i \<le> NDIRECT then load32 d (off + 12 + 4 * i) else i_addrs ip i)\<rparr>)"

definition put_dinode :: "block \<Rightarrow> nat \<Rightarrow> inode \<Rightarrow> block" where
  "put_dinode d k ip =
     (let off = DINODE_SIZE * k;
          d = store16 d off (i_type ip); d = store16 d (off + 2) (i_major ip); d = store16 d (off + 4) (i_minor ip);
          d = store16 d (off + 6) (i_nlink ip); d = store32 d (off + 8) (i_size ip)
      in fold (\<lambda>i d. store32 d (off + 12 + 4 * i) (i_addrs ip i)) [0..<NDIRECT + 1] d)"

section \<open>Blocks\<close>

definition readsb :: "u32 \<Rightarrow> 'z fss \<Rightarrow> 'z fss stop + 'z fss" where
  "readsb dev s =
     bindE (bread dev 1 s) (\<lambda>(bp, s).
     let d = get_data bp s in
     brelse bp (s\<lparr>sb := \<lparr>sb_magic = load32 d 0, sb_size = load32 d 4, sb_nblocks = load32 d 8,
       sb_ninodes = load32 d 12, sb_nlog = load32 d 16, sb_logstart = load32 d 20,
       sb_inodestart = load32 d 24, sb_bmapstart = load32 d 28\<rparr>\<rparr>))"

definition fsinit :: "u32 \<Rightarrow> 'z fss \<Rightarrow> 'z fss stop + 'z fss" where
  "fsinit dev s =
     bindE (readsb dev s) (\<lambda>s.
     if sb_magic (sb s) \<noteq> FSMAGIC then Inl (Panic ''invalid file system'')
     else initlog dev (sb_logstart (sb s)) (sb_nlog (sb s)) s)"

definition bzero :: "u32 \<Rightarrow> u32 \<Rightarrow> 'z fss \<Rightarrow> 'z fss stop + 'z fss" where
  "bzero dev bno s =
     bindE (bread dev bno s) (\<lambda>(bp, s).
     bindE (log_write bp (set_data bp (memset (get_data bp s) 0 0 1024) s)) (\<lambda>s.
     brelse bp s))"

text \<open>Bit bi of a bitmap block.\<close>

definition bmap_bit :: "block \<Rightarrow> nat \<Rightarrow> bool" where
  "bmap_bit d bi \<longleftrightarrow> d (bi div 8) AND push_bit (bi mod 8) 1 \<noteq> 0"

definition bmap_set :: "block \<Rightarrow> nat \<Rightarrow> block" where
  "bmap_set d bi = d(bi div 8 := d (bi div 8) OR push_bit (bi mod 8) 1)"

definition bmap_clear :: "block \<Rightarrow> nat \<Rightarrow> block" where
  "bmap_clear d bi = d(bi div 8 := d (bi div 8) AND NOT (push_bit (bi mod 8) 1))"

text \<open>The outer loop of \<open>balloc\<close> over the given values of b.\<close>

fun balloc_from :: "u32 \<Rightarrow> nat list \<Rightarrow> 'z fss \<Rightarrow> 'z fss stop + u32 \<times> 'z fss" where
  "balloc_from dev [] s = bindE (kprintf ''balloc: out of blocks\<newline>'' [] s) (\<lambda>s. Inr (0, s))"
| "balloc_from dev (b # bs) s =
     bindE (bread dev (BBLOCK (of_nat b) (sb s)) s) (\<lambda>(bp, s).
     case first_index (\<lambda>bi. b + bi < unat (sb_size (sb s)) \<and> \<not> bmap_bit (get_data bp s) bi) BPB of
       Some bi \<Rightarrow>
         bindE (log_write bp (set_data bp (bmap_set (get_data bp s) bi) s)) (\<lambda>s.
         bindE (brelse bp s) (\<lambda>s.
         bindE (bzero dev (of_nat (b + bi)) s) (\<lambda>s.
         Inr (of_nat (b + bi), s))))
     | None \<Rightarrow> bindE (brelse bp s) (\<lambda>s. balloc_from dev bs s))"

definition balloc :: "u32 \<Rightarrow> 'z fss \<Rightarrow> 'z fss stop + u32 \<times> 'z fss" where
  "balloc dev s = balloc_from dev (map (\<lambda>k. k * BPB) [0..<(unat (sb_size (sb s)) + BPB - 1) div BPB]) s"

definition bfree :: "u32 \<Rightarrow> u32 \<Rightarrow> 'z fss \<Rightarrow> 'z fss stop + 'z fss" where
  "bfree dev b s =
     bindE (bread dev (BBLOCK b (sb s)) s) (\<lambda>(bp, s).
     let bi = unat b mod BPB in
     if \<not> bmap_bit (get_data bp s) bi then Inl (Panic ''freeing free block'')
     else bindE (log_write bp (set_data bp (bmap_clear (get_data bp s) bi) s)) (\<lambda>s.
       brelse bp s))"

section \<open>Inodes\<close>

definition upd_inode :: "nat \<Rightarrow> (inode \<Rightarrow> inode) \<Rightarrow> 'z fss \<Rightarrow> 'z fss" where
  "upd_inode i f s = s\<lparr>inode := (inode s)(i := f (inode s i))\<rparr>"

definition inode_lock :: "nat \<Rightarrow> 'z fss \<Rightarrow> sleeplock" where
  "inode_lock i s = i_lock (inode s i)"

definition set_inode_lock :: "nat \<Rightarrow> sleeplock \<Rightarrow> 'z fss \<Rightarrow> 'z fss" where
  "set_inode_lock i l s = upd_inode i (\<lambda>r. r\<lparr>i_lock := l\<rparr>) s"

definition iinit :: "'z fss \<Rightarrow> 'z fss" where
  "iinit s = fold (\<lambda>i. upd_inode i (\<lambda>r. r\<lparr>i_lock := initsleeplock\<rparr>)) [0..<NINODE] s"

definition iget :: "u32 \<Rightarrow> u32 \<Rightarrow> 'z fss \<Rightarrow> 'z fss stop + nat \<times> 'z fss" where
  "iget dev inum s =
     (case first_index (\<lambda>i. i_ref (inode s i) > 0 \<and> i_dev (inode s i) = dev \<and> i_inum (inode s i) = inum) NINODE of
        Some i \<Rightarrow> Inr (i, upd_inode i (\<lambda>r. r\<lparr>i_ref := i_ref r + 1\<rparr>) s)
      | None \<Rightarrow>
          (case first_index (\<lambda>i. i_ref (inode s i) = 0) NINODE of
             None \<Rightarrow> Inl (Panic ''iget: no inodes'')
           | Some i \<Rightarrow> Inr (i, upd_inode i (\<lambda>r. r\<lparr>i_dev := dev, i_inum := inum, i_ref := 1, i_valid := False\<rparr>) s)))"

text \<open>The loop of \<open>ialloc\<close> over the given inode numbers.\<close>

fun ialloc_from :: "u32 \<Rightarrow> u16 \<Rightarrow> nat list \<Rightarrow> 'z fss \<Rightarrow> 'z fss stop + nat option \<times> 'z fss" where
  "ialloc_from dev type [] s = bindE (kprintf ''ialloc: no inodes\<newline>'' [] s) (\<lambda>s. Inr (None, s))"
| "ialloc_from dev type (inum # inums) s =
     bindE (bread dev (IBLOCK (of_nat inum) (sb s)) s) (\<lambda>(bp, s).
     let off = DINODE_SIZE * (inum mod IPB) in
     if load16 (get_data bp s) off = 0
     then bindE (log_write bp (set_data bp (store16 (memset (get_data bp s) off 0 64) off type) s)) (\<lambda>s.
          bindE (brelse bp s) (\<lambda>s.
          bindE (iget dev (of_nat inum) s) (\<lambda>(ip, s). Inr (Some ip, s))))
     else bindE (brelse bp s) (\<lambda>s. ialloc_from dev type inums s))"

definition ialloc :: "u32 \<Rightarrow> u16 \<Rightarrow> 'z fss \<Rightarrow> 'z fss stop + nat option \<times> 'z fss" where
  "ialloc dev type s = ialloc_from dev type [1..<unat (sb_ninodes (sb s))] s"

definition iupdate :: "nat \<Rightarrow> 'z fss \<Rightarrow> 'z fss stop + 'z fss" where
  "iupdate ip s =
     bindE (bread (i_dev (inode s ip)) (IBLOCK (i_inum (inode s ip)) (sb s)) s) (\<lambda>(bp, s).
     bindE (log_write bp (set_data bp
       (put_dinode (get_data bp s) (unat (i_inum (inode s ip)) mod IPB) (inode s ip)) s)) (\<lambda>s.
     brelse bp s))"

definition idup :: "nat \<Rightarrow> 'z fss \<Rightarrow> 'z fss" where
  "idup ip s = upd_inode ip (\<lambda>r. r\<lparr>i_ref := i_ref r + 1\<rparr>) s"

definition ilock :: "nat \<Rightarrow> 'z fss \<Rightarrow> 'z fss stop + 'z fss" where
  "ilock ip s =
     (if i_ref (inode s ip) < 1 then Inl (Panic ''ilock'')
      else bindE (acquiresleep (ChanInodeLock ip) (inode_lock ip) (set_inode_lock ip) s) (\<lambda>s.
        if \<not> i_valid (inode s ip)
        then bindE (bread (i_dev (inode s ip)) (IBLOCK (i_inum (inode s ip)) (sb s)) s) (\<lambda>(bp, s).
             let s = upd_inode ip (get_dinode (get_data bp s) (unat (i_inum (inode s ip)) mod IPB)) s in
             bindE (brelse bp s) (\<lambda>s.
             let s = upd_inode ip (\<lambda>r. r\<lparr>i_valid := True\<rparr>) s in
             if i_type (inode s ip) = 0 then Inl (Panic ''ilock: no type'') else Inr s))
        else Inr s))"

definition iunlock :: "nat \<Rightarrow> 'z fss \<Rightarrow> 'z fss stop + 'z fss" where
  "iunlock ip s =
     (if \<not> holdingsleep (inode_lock ip) s \<or> i_ref (inode s ip) < 1 then Inl (Panic ''iunlock'')
      else Inr (releasesleep (ChanInodeLock ip) (set_inode_lock ip) s))"

section \<open>Inode contents\<close>

definition set_addr :: "nat \<Rightarrow> nat \<Rightarrow> u32 \<Rightarrow> 'z fss \<Rightarrow> 'z fss" where
  "set_addr ip i a s = upd_inode ip (\<lambda>r. r\<lparr>i_addrs := (i_addrs r)(i := a)\<rparr>) s"

definition bmap :: "nat \<Rightarrow> u32 \<Rightarrow> 'z fss \<Rightarrow> 'z fss stop + u32 \<times> 'z fss" where
  "bmap ip bn s =
     (let dev = i_dev (inode s ip); n = unat bn in
      if n < NDIRECT
      then let addr = i_addrs (inode s ip) n in
        if addr = 0
        then bindE (balloc dev s) (\<lambda>(addr, s).
             if addr = 0 then Inr (0, s) else Inr (addr, set_addr ip n addr s))
        else Inr (addr, s)
      else let n = n - NDIRECT in
      if n < NINDIRECT
      then let addr = i_addrs (inode s ip) NDIRECT in
        bindE (if addr = 0
               then bindE (balloc dev s) (\<lambda>(addr, s).
                    if addr = 0 then Inr (0, s) else Inr (addr, set_addr ip NDIRECT addr s))
               else Inr (addr, s)) (\<lambda>(addr, s).
        if addr = 0 then Inr (0, s)
        else bindE (bread dev addr s) (\<lambda>(bp, s).
          let addr = load32 (get_data bp s) (4 * n) in
          bindE (if addr = 0
                 then bindE (balloc dev s) (\<lambda>(addr, s).
                      if addr \<noteq> 0
                      then bindE (log_write bp (set_data bp (store32 (get_data bp s) (4 * n) addr) s)) (\<lambda>s.
                           Inr (addr, s))
                      else Inr (addr, s))
                 else Inr (addr, s)) (\<lambda>(addr, s).
          bindE (brelse bp s) (\<lambda>s. Inr (addr, s)))))
      else Inl (Panic ''bmap: out of range''))"

definition itrunc :: "nat \<Rightarrow> 'z fss \<Rightarrow> 'z fss stop + 'z fss" where
  "itrunc ip s =
     (let dev = i_dev (inode s ip) in
      bindE (foldE (\<lambda>i s. if i_addrs (inode s ip) i \<noteq> 0
               then bindE (bfree dev (i_addrs (inode s ip) i) s) (\<lambda>s. Inr (set_addr ip i 0 s))
               else Inr s) [0..<NDIRECT] s) (\<lambda>s.
      bindE (let ind = i_addrs (inode s ip) NDIRECT in
             if ind \<noteq> 0
             then bindE (bread dev ind s) (\<lambda>(bp, s).
                  bindE (foldE (\<lambda>j s. let a = load32 (get_data bp s) (4 * j) in
                           if a \<noteq> 0 then bfree dev a s else Inr s) [0..<NINDIRECT] s) (\<lambda>s.
                  bindE (brelse bp s) (\<lambda>s.
                  bindE (bfree dev ind s) (\<lambda>s.
                  Inr (set_addr ip NDIRECT 0 s)))))
             else Inr s) (\<lambda>s.
      iupdate ip (upd_inode ip (\<lambda>r. r\<lparr>i_size := 0\<rparr>) s))))"

definition iput :: "nat \<Rightarrow> 'z fss \<Rightarrow> 'z fss stop + 'z fss" where
  "iput ip s =
     bindE (if i_ref (inode s ip) = 1 \<and> i_valid (inode s ip) \<and> i_nlink (inode s ip) = 0
            then bindE (acquiresleep (ChanInodeLock ip) (inode_lock ip) (set_inode_lock ip) s) (\<lambda>s.
                 bindE (itrunc ip s) (\<lambda>s.
                 bindE (iupdate ip (upd_inode ip (\<lambda>r. r\<lparr>i_type := 0\<rparr>) s)) (\<lambda>s.
                 Inr (releasesleep (ChanInodeLock ip) (set_inode_lock ip)
                        (upd_inode ip (\<lambda>r. r\<lparr>i_valid := False\<rparr>) s)))))
            else Inr s) (\<lambda>s.
     Inr (upd_inode ip (\<lambda>r. r\<lparr>i_ref := i_ref r - 1\<rparr>) s))"

definition iunlockput :: "nat \<Rightarrow> 'z fss \<Rightarrow> 'z fss stop + 'z fss" where
  "iunlockput ip s = bindE (iunlock ip s) (iput ip)"

definition stati :: "nat \<Rightarrow> 'z fss \<Rightarrow> stat" where
  "stati ip s = (let r = inode s ip in
     \<lparr>st_dev = i_dev r, st_ino = i_inum r, st_type = i_type r, st_nlink = i_nlink r, st_size = ucast (i_size r)\<rparr>)"

text \<open>The other end of a transfer.\<close>

datatype dest = AddrOut bool u64 | LocalOut
datatype source = AddrIn bool u64 | LocalIn "u8 list"

fun dest_plus :: "dest \<Rightarrow> u32 \<Rightarrow> dest" where
  "dest_plus (AddrOut user dst) m = AddrOut user (dst + ucast m)"
| "dest_plus LocalOut m = LocalOut"

fun source_plus :: "source \<Rightarrow> u32 \<Rightarrow> source" where
  "source_plus (AddrIn user src) m = AddrIn user (src + ucast m)"
| "source_plus (LocalIn bs) m = LocalIn (drop (unat m) bs)"

fun put_dest :: "dest \<Rightarrow> u8 list \<Rightarrow> 'z fss \<Rightarrow> 'z fss stop + (int \<times> u8 list) \<times> 'z fss" where
  "put_dest (AddrOut user dst) bs s = bindE (either_copyout user dst bs s) (\<lambda>(r, s). Inr ((r, []), s))"
| "put_dest LocalOut bs s = Inr ((0, bs), s)"

fun get_source :: "source \<Rightarrow> nat \<Rightarrow> 'z fss \<Rightarrow> 'z fss stop + int \<times> u8 list" where
  "get_source (AddrIn user src) n s = either_copyin user src n s"
| "get_source (LocalIn bs) n s = Inr (0, take n bs)"

definition chunk :: "u32 \<Rightarrow> u32 \<Rightarrow> u32 \<Rightarrow> u32" where
  "chunk off n tot = min (n - tot) (1024 - off mod 1024)"

lemma off_in_block: "off mod 1024 < (1024 :: u32)"
  by (simp add: word_less_nat_alt unat_mod)

lemma chunk_pos: "tot < n \<Longrightarrow> 0 < chunk off n tot"
proof -
  assume "tot < n"
  then have "n - tot \<noteq> 0" by simp
  moreover have "1024 - off mod 1024 \<noteq> (0 :: u32)" using off_in_block [of off] by auto
  ultimately show ?thesis by (auto simp: chunk_def min_def word_gt_0)
qed

lemma chunk_le: "chunk off n tot \<le> n - tot"
  by (simp add: chunk_def)

lemma chunk_step: "tot < n \<Longrightarrow> unat (n - (tot + chunk off n tot)) < unat (n - tot)"
proof -
  assume lt: "tot < n"
  let ?m = "chunk off n tot"
  have "unat ?m \<le> unat (n - tot)" "0 < unat ?m"
    using chunk_le [of off n tot] chunk_pos [OF lt, of off] by (simp_all add: word_le_nat_alt word_less_nat_alt)
  moreover have "unat (n - (tot + ?m)) = unat (n - tot) - unat ?m"
    using unat_sub [OF chunk_le, of n tot off] by (simp only: diff_diff_eq)
  ultimately show ?thesis by linarith
qed

text \<open>
  The loop of \<open>readi\<close>.  It returns the total as the source's unsigned \<open>tot\<close> (\<open>-1\<close> after a
  failed copy), and the bytes copied when the destination is local.
\<close>

function readi_loop :: "nat \<Rightarrow> dest \<Rightarrow> u32 \<Rightarrow> u32 \<Rightarrow> u32 \<Rightarrow> u8 list \<Rightarrow> 'z fss \<Rightarrow>
    'z fss stop + (u32 \<times> u8 list) \<times> 'z fss" where
  "readi_loop ip dst off n tot got s =
     (if \<not> tot < n then Inr ((tot, got), s)
      else bindE (bmap ip (off div 1024) s) (\<lambda>(addr, s).
        if addr = 0 then Inr ((tot, got), s)
        else bindE (bread (i_dev (inode s ip)) addr s) (\<lambda>(bp, s).
          let m = chunk off n tot; o1 = unat (off mod 1024) in
          bindE (put_dest dst (map (get_data bp s) [o1..<o1 + unat m]) s) (\<lambda>((r, bs), s).
          if r = - 1 then bindE (brelse bp s) (\<lambda>s. Inr ((- 1, got), s))
          else bindE (brelse bp s) (\<lambda>s.
            readi_loop ip (dest_plus dst m) (off + m) n (tot + m) (got @ bs) s)))))"
  by pat_completeness auto
termination
  by (relation "measure (\<lambda>(ip, dst, off, n, tot, got, s). unat (n - tot))") (auto simp: chunk_step)

declare readi_loop.simps [simp del]

definition readi :: "nat \<Rightarrow> dest \<Rightarrow> u32 \<Rightarrow> u32 \<Rightarrow> 'z fss \<Rightarrow> 'z fss stop + (u32 \<times> u8 list) \<times> 'z fss" where
  "readi ip dst off n s =
     (if off > i_size (inode s ip) \<or> off + n < off then Inr ((0, []), s)
      else let n = (if off + n > i_size (inode s ip) then i_size (inode s ip) - off else n) in
        readi_loop ip dst off n 0 [] s)"

text \<open>The loop of \<open>writei\<close>: it returns the total and the offset reached.\<close>

function writei_loop :: "nat \<Rightarrow> source \<Rightarrow> u32 \<Rightarrow> u32 \<Rightarrow> u32 \<Rightarrow> 'z fss \<Rightarrow> 'z fss stop + (u32 \<times> u32) \<times> 'z fss" where
  "writei_loop ip src off n tot s =
     (if \<not> tot < n then Inr ((tot, off), s)
      else bindE (bmap ip (off div 1024) s) (\<lambda>(addr, s).
        if addr = 0 then Inr ((tot, off), s)
        else bindE (bread (i_dev (inode s ip)) addr s) (\<lambda>(bp, s).
          let m = chunk off n tot in
          bindE (get_source src (unat m) s) (\<lambda>(r, bs).
          let s = set_data bp (store_bytes (get_data bp s) (unat (off mod 1024)) bs) s in
          if r = - 1 then bindE (brelse bp s) (\<lambda>s. Inr ((tot, off), s))
          else bindE (log_write bp s) (\<lambda>s.
            bindE (brelse bp s) (\<lambda>s.
            writei_loop ip (source_plus src m) (off + m) n (tot + m) s))))))"
  by pat_completeness auto
termination
  by (relation "measure (\<lambda>(ip, src, off, n, tot, s). unat (n - tot))") (auto simp: chunk_step)

declare writei_loop.simps [simp del]

definition writei :: "nat \<Rightarrow> source \<Rightarrow> u32 \<Rightarrow> u32 \<Rightarrow> 'z fss \<Rightarrow> 'z fss stop + int \<times> 'z fss" where
  "writei ip src off n s =
     (if off > i_size (inode s ip) \<or> off + n < off then Inr (- 1, s)
      else if unat (off + n) > MAXFILE * BSIZE then Inr (- 1, s)
      else bindE (writei_loop ip src off n 0 s) (\<lambda>((tot, off), s).
        let s = (if off > i_size (inode s ip) then upd_inode ip (\<lambda>r. r\<lparr>i_size := off\<rparr>) s else s) in
        bindE (iupdate ip s) (\<lambda>s. Inr (sint tot, s))))"

section \<open>Directories\<close>

text \<open>A directory entry read into a local object: its inode number and its name.\<close>

definition de_inum :: "u8 list \<Rightarrow> u16" where
  "de_inum de = load16 (nth de) 0"

definition de_name :: "u8 list \<Rightarrow> nat \<Rightarrow> u8" where
  "de_name de i = de ! (2 + i)"

definition mk_dirent :: "(nat \<Rightarrow> u8) \<Rightarrow> u32 \<Rightarrow> u8 list" where
  "mk_dirent name inum = le_encode 2 (unat (ucast inum :: u16)) @ map (strncpy (\<lambda>_. 0) name 14) [0..<DIRSIZ]"

definition namecmp :: "(nat \<Rightarrow> u8) \<Rightarrow> (nat \<Rightarrow> u8) \<Rightarrow> int" where
  "namecmp s t = strncmp s t DIRSIZ"

text \<open>The offsets a loop over the entries of a directory visits.\<close>

definition dir_offsets :: "u32 \<Rightarrow> u32 list" where
  "dir_offsets sz = map (\<lambda>k. of_nat (DIRENT_SIZE * k)) [0..<(unat sz + DIRENT_SIZE - 1) div DIRENT_SIZE]"

fun dirlookup_from :: "nat \<Rightarrow> (nat \<Rightarrow> u8) \<Rightarrow> u32 list \<Rightarrow> 'z fss \<Rightarrow> 'z fss stop + (nat \<times> u32) option \<times> 'z fss" where
  "dirlookup_from dp name [] s = Inr (None, s)"
| "dirlookup_from dp name (off # offs) s =
     bindE (readi dp LocalOut off 16 s) (\<lambda>((r, de), s).
     if r \<noteq> 16 then Inl (Panic ''dirlookup read'')
     else if de_inum de = 0 then dirlookup_from dp name offs s
     else if namecmp name (de_name de) = 0
     then bindE (iget (i_dev (inode s dp)) (ucast (de_inum de)) s) (\<lambda>(ip, s). Inr (Some (ip, off), s))
     else dirlookup_from dp name offs s)"

text \<open>The inode found, with the offset of its entry for the callers that pass \<open>poff\<close>.\<close>

definition dirlookup :: "nat \<Rightarrow> (nat \<Rightarrow> u8) \<Rightarrow> 'z fss \<Rightarrow> 'z fss stop + (nat \<times> u32) option \<times> 'z fss" where
  "dirlookup dp name s =
     (if i_type (inode s dp) \<noteq> T_DIR then Inl (Panic ''dirlookup not DIR'')
      else dirlookup_from dp name (dir_offsets (i_size (inode s dp))) s)"

text \<open>The first free entry, or the offset after the last one.\<close>

fun free_entry :: "nat \<Rightarrow> u32 list \<Rightarrow> u32 \<Rightarrow> 'z fss \<Rightarrow> 'z fss stop + u32 \<times> 'z fss" where
  "free_entry dp [] past s = Inr (past, s)"
| "free_entry dp (off # offs) past s =
     bindE (readi dp LocalOut off 16 s) (\<lambda>((r, de), s).
     if r \<noteq> 16 then Inl (Panic ''dirlink read'')
     else if de_inum de = 0 then Inr (off, s)
     else free_entry dp offs (off + 16) s)"

definition dirlink :: "nat \<Rightarrow> (nat \<Rightarrow> u8) \<Rightarrow> u32 \<Rightarrow> 'z fss \<Rightarrow> 'z fss stop + int \<times> 'z fss" where
  "dirlink dp name inum s =
     bindE (dirlookup dp name s) (\<lambda>(found, s).
     case found of
       Some (ip, _) \<Rightarrow> bindE (iput ip s) (\<lambda>s. Inr (- 1, s))
     | None \<Rightarrow>
         bindE (free_entry dp (dir_offsets (i_size (inode s dp))) 0 s) (\<lambda>(off, s).
         bindE (writei dp (LocalIn (mk_dirent name inum)) off 16 s) (\<lambda>(r, s).
         if r \<noteq> 16 then Inr (- 1, s) else Inr (0, s))))"

section \<open>Paths\<close>

abbreviation (input) SLASH :: u8 where "SLASH \<equiv> 47"

definition skipelem :: "u8 list \<Rightarrow> (nat \<Rightarrow> u8) \<Rightarrow> (u8 list \<times> (nat \<Rightarrow> u8)) option" where
  "skipelem path name =
     (let path = dropWhile (\<lambda>c. c = SLASH) path in
      if path = [] then None
      else let e = takeWhile (\<lambda>c. c \<noteq> SLASH) path; len = length e;
               name = (if len \<ge> DIRSIZ then store_bytes name 0 (take DIRSIZ e)
                       else (store_bytes name 0 e)(len := 0))
        in Some (dropWhile (\<lambda>c. c = SLASH) (drop len path), name))"

lemma skipelem_shorter: "skipelem path name = Some (path', name') \<Longrightarrow> length path' < length path"
proof -
  assume a: "skipelem path name = Some (path', name')"
  let ?p = "dropWhile (\<lambda>c. c = SLASH) path"
  let ?e = "takeWhile (\<lambda>c. c \<noteq> SLASH) ?p"
  have p: "?p \<noteq> []" "path' = dropWhile (\<lambda>c. c = SLASH) (drop (length ?e) ?p)"
    using a by (auto simp: skipelem_def Let_def split: if_splits)
  have "hd ?p \<noteq> SLASH" using hd_dropWhile [OF p(1)] by simp
  then have "?e \<noteq> []" using p(1) by (cases ?p) auto
  then have "0 < length ?e" by simp
  moreover have "length path' \<le> length ?p - length ?e" using length_dropWhile_le [of _ "drop (length ?e) ?p"] p(2) by simp
  moreover have "length ?p \<le> length path" by (rule length_dropWhile_le)
  moreover have "0 < length ?p" using p(1) by simp
  ultimately show ?thesis by linarith
qed

text \<open>The loop of \<open>namex\<close>; the name of the last element is returned for \<open>nameiparent\<close>.\<close>

function namex_loop :: "nat \<Rightarrow> u8 list \<Rightarrow> bool \<Rightarrow> (nat \<Rightarrow> u8) \<Rightarrow> 'z fss \<Rightarrow>
    'z fss stop + (nat option \<times> (nat \<Rightarrow> u8)) \<times> 'z fss" where
  "namex_loop ip path nameiparent name s =
     (case skipelem path name of
        None \<Rightarrow> if nameiparent then bindE (iput ip s) (\<lambda>s. Inr ((None, name), s)) else Inr ((Some ip, name), s)
      | Some (path, name) \<Rightarrow>
          bindE (ilock ip s) (\<lambda>s.
          if i_type (inode s ip) \<noteq> T_DIR then bindE (iunlockput ip s) (\<lambda>s. Inr ((None, name), s))
          else if nameiparent \<and> path = [] then bindE (iunlock ip s) (\<lambda>s. Inr ((Some ip, name), s))
          else bindE (dirlookup ip name s) (\<lambda>(next, s).
            case next of
              None \<Rightarrow> bindE (iunlockput ip s) (\<lambda>s. Inr ((None, name), s))
            | Some (next, _) \<Rightarrow> bindE (iunlockput ip s) (\<lambda>s. namex_loop next path nameiparent name s))))"
  by pat_completeness auto
termination
  by (relation "measure (\<lambda>(ip, path, np, name, s). length path)") (auto dest: skipelem_shorter)

declare namex_loop.simps [simp del]

definition namex :: "u8 list \<Rightarrow> bool \<Rightarrow> (nat \<Rightarrow> u8) \<Rightarrow> 'z fss \<Rightarrow>
    'z fss stop + (nat option \<times> (nat \<Rightarrow> u8)) \<times> 'z fss" where
  "namex path nameiparent name s =
     bindE (if path \<noteq> [] \<and> hd path = SLASH then iget ROOTDEV ROOTINO s
            else with_myproc s (\<lambda>p. case p_cwd (proc s p) of
                   None \<Rightarrow> Inl (Fault ''namex: cwd'') | Some ip \<Rightarrow> Inr (ip, idup ip s))) (\<lambda>(ip, s).
     namex_loop ip path nameiparent name s)"

definition namei :: "u8 list \<Rightarrow> 'z fss \<Rightarrow> 'z fss stop + nat option \<times> 'z fss" where
  "namei path s = bindE (namex path False (\<lambda>_. 0) s) (\<lambda>((ip, _), s). Inr (ip, s))"

definition nameiparent :: "u8 list \<Rightarrow> 'z fss \<Rightarrow> 'z fss stop + (nat option \<times> (nat \<Rightarrow> u8)) \<times> 'z fss" where
  "nameiparent path s = namex path True (\<lambda>_. 0) s"

end
