(* ===== verification/FsFormat.thy ===== *)
theory FsFormat
  imports Fs
begin

text \<open>
  The on-disk formats of the file system: inodes, bitmaps and directory entries can be
  read back as they were written, and path names are split into their elements.
\<close>

section \<open>Inodes\<close>

lemma load16_store32_other: "off' + 2 \<le> off \<or> off + 4 \<le> off' \<Longrightarrow> load16 (store32 b off v) off' = load16 b off'"
  by (simp add: load16_def store32_def load_store_bytes_other)

lemma load32_store16_other: "off' + 4 \<le> off \<or> off + 2 \<le> off' \<Longrightarrow> load32 (store16 b off v) off' = load32 b off'"
  by (simp add: load32_def store16_def load_store_bytes_other)

lemmas load_store_other = load16_store32_other load32_store16_other load16_store16_other load32_store32_other

definition put_words :: "nat \<Rightarrow> (nat \<Rightarrow> u32) \<Rightarrow> nat \<Rightarrow> block \<Rightarrow> block" where
  "put_words base a n d = fold (\<lambda>i d. store32 d (base + 4 * i) (a i)) [0..<n] d"

lemma put_words_load:
  "i < n \<Longrightarrow> load32 (put_words base a n d) (base + 4 * i) = a i"
proof (induction n)
  case (Suc n)
  then show ?case by (cases "i = n") (simp_all add: put_words_def load32_store32_other)
qed simp

lemma put_words_other:
  "off + 4 \<le> base \<or> base + 4 * n \<le> off \<Longrightarrow> load32 (put_words base a n d) off = load32 d off"
  "off + 2 \<le> base \<or> base + 4 * n \<le> off \<Longrightarrow> load16 (put_words base a n d) off = load16 d off"
  by (induction n) (auto simp: put_words_def load_store_other)

lemma put_dinode_words:
  "put_dinode d k ip = put_words (64 * k + 12) (i_addrs ip) 13
     (store32 (store16 (store16 (store16 (store16 d (64 * k) (i_type ip)) (64 * k + 2) (i_major ip))
       (64 * k + 4) (i_minor ip)) (64 * k + 6) (i_nlink ip)) (64 * k + 8) (i_size ip))"
  by (simp add: put_dinode_def put_words_def Let_def)

text \<open>The fields of an inode that are kept on disk, copied from one inode to another.\<close>

definition copy_dinode :: "inode \<Rightarrow> inode \<Rightarrow> inode" where
  "copy_dinode ip jp = jp\<lparr>i_type := i_type ip, i_major := i_major ip, i_minor := i_minor ip, i_nlink := i_nlink ip,
     i_size := i_size ip, i_addrs := (\<lambda>i. if i \<le> NDIRECT then i_addrs ip i else i_addrs jp i)\<rparr>"

lemma get_put_dinode: "get_dinode (put_dinode d k ip) k jp = copy_dinode ip jp"
proof -
  have a: "load32 (put_dinode d k ip) (64 * k + 12 + 4 * i) = i_addrs ip i" if "i \<le> 12" for i
    using that unfolding put_dinode_words by (intro put_words_load) simp
  have w: "load16 (put_dinode d k ip) (64 * k) = i_type ip" "load16 (put_dinode d k ip) (64 * k + 2) = i_major ip"
    "load16 (put_dinode d k ip) (64 * k + 4) = i_minor ip" "load16 (put_dinode d k ip) (64 * k + 6) = i_nlink ip"
    "load32 (put_dinode d k ip) (64 * k + 8) = i_size ip"
    unfolding put_dinode_words by (simp_all add: put_words_other load_store_other)
  have "(\<lambda>i. if i \<le> 12 then load32 (put_dinode d k ip) (64 * k + 12 + 4 * i) else i_addrs jp i) =
      (\<lambda>i. if i \<le> 12 then i_addrs ip i else i_addrs jp i)"
    by (rule ext) (simp add: a)
  then show ?thesis unfolding get_dinode_def Let_def copy_dinode_def w by simp
qed

lemma get_put_dinode_other:
  assumes "j \<noteq> k"
  shows "get_dinode (put_dinode d k ip) j jp = get_dinode d j jp"
proof -
  have far: "64 * j + 64 \<le> 64 * k \<or> 64 * k + 64 \<le> 64 * j" using assms by linarith
  have w: "load16 (put_dinode d k ip) (64 * j + c) = load16 d (64 * j + c)"
    "load32 (put_dinode d k ip) (64 * j + c) = load32 d (64 * j + c)" if "c + 4 \<le> 64" for c
    using far that unfolding put_dinode_words
    by (elim disjE; simp add: put_words_other load_store_other)+
  have "(\<lambda>i. if i \<le> 12 then load32 (put_dinode d k ip) (64 * j + 12 + 4 * i) else i_addrs jp i) =
      (\<lambda>i. if i \<le> 12 then load32 d (64 * j + 12 + 4 * i) else i_addrs jp i)"
    using w(2) [of "12 + 4 * i" for i] by (auto simp: fun_eq_iff add.assoc)
  then show ?thesis unfolding get_dinode_def Let_def
    using w(1) [of 0] w(1) [of 2] w(1) [of 4] w(1) [of 6] w(2) [of 8] by simp
qed

section \<open>Bitmaps\<close>

lemma bmap_bit_iff: "bmap_bit d bi \<longleftrightarrow> bit (d (bi div 8)) (bi mod 8)"
  by (simp add: bmap_bit_def bit_iff_and_push_bit_not_eq_0)

lemma bmap_set_bit: "bmap_bit (bmap_set d bi) bj \<longleftrightarrow> bj = bi \<or> bmap_bit d bj"
proof -
  have "bj = bi \<longleftrightarrow> bj div 8 = bi div 8 \<and> bj mod 8 = bi mod 8" by (metis div_mult_mod_eq)
  moreover have "bi mod 8 < 8" "bj mod 8 < 8" by simp_all
  ultimately show ?thesis by (auto simp: bmap_bit_iff bmap_set_def bit_simps)
qed

lemma bmap_clear_bit: "bmap_bit (bmap_clear d bi) bj \<longleftrightarrow> bj \<noteq> bi \<and> bmap_bit d bj"
proof -
  have "bj = bi \<longleftrightarrow> bj div 8 = bi div 8 \<and> bj mod 8 = bi mod 8" by (metis div_mult_mod_eq)
  moreover have "bi mod 8 < 8" "bj mod 8 < 8" by simp_all
  ultimately show ?thesis by (auto simp: bmap_bit_iff bmap_clear_def bit_simps)
qed

section \<open>Paths\<close>

text \<open>The reference: the non-empty pieces between slashes.\<close>

fun split_slash :: "u8 list \<Rightarrow> u8 list list" where
  "split_slash [] = [[]]"
| "split_slash (c # cs) =
     (if c = SLASH then [] # split_slash cs
      else case split_slash cs of [] \<Rightarrow> [[c]] | e # es \<Rightarrow> (c # e) # es)"

definition path_elems :: "u8 list \<Rightarrow> u8 list list" where
  "path_elems path = filter (\<lambda>e. e \<noteq> []) (split_slash path)"

lemma split_slash_nonempty: "split_slash p \<noteq> []"
  by (induction p) (auto split: list.splits)

lemma split_slash_append:
  "SLASH \<notin> set e \<Longrightarrow> split_slash (e @ r) = (e @ hd (split_slash r)) # tl (split_slash r)"
proof (induction e)
  case Nil
  then show ?case using split_slash_nonempty [of r] by simp
qed auto

lemma path_elems_slash [simp]: "path_elems (SLASH # p) = path_elems p"
  by (simp add: path_elems_def)

lemma path_elems_dropWhile: "path_elems (dropWhile (\<lambda>c. c = SLASH) p) = path_elems p"
  by (induction p) auto

lemma path_elems_first:
  assumes "SLASH \<notin> set e" and "e \<noteq> []" and "r = [] \<or> hd r = SLASH"
  shows "path_elems (e @ r) = e # path_elems r"
proof -
  have "hd (split_slash r) = [] \<and> filter (\<lambda>e. e \<noteq> []) (tl (split_slash r)) = path_elems r"
    using assms(3) by (cases r) (auto simp: path_elems_def)
  then show ?thesis using assms(1,2) by (simp add: path_elems_def split_slash_append)
qed

lemma takeWhile_nonempty: "xs \<noteq> [] \<Longrightarrow> P (hd xs) \<Longrightarrow> takeWhile P xs \<noteq> []"
  by (cases xs) auto

lemma path_elems_empty:
  "dropWhile (\<lambda>c. c = SLASH) r = [] \<longleftrightarrow> path_elems (dropWhile (\<lambda>c. c = SLASH) r) = []" (is "?q = [] \<longleftrightarrow> _")
proof (cases "?q = []")
  case True
  then show ?thesis unfolding True by (simp add: path_elems_def)
next
  case False
  let ?e = "takeWhile (\<lambda>c. c \<noteq> SLASH) ?q" and ?r = "dropWhile (\<lambda>c. c \<noteq> SLASH) ?q"
  have "?e \<noteq> []" by (rule takeWhile_nonempty [OF False]) (rule hd_dropWhile [OF False])
  moreover have "?r = [] \<or> hd ?r = SLASH" using hd_dropWhile [of "\<lambda>c. c \<noteq> SLASH" ?q] by blast
  moreover have "SLASH \<notin> set ?e" by (auto dest: set_takeWhileD)
  ultimately have "path_elems (?e @ ?r) \<noteq> []" using path_elems_first [of ?e ?r] by simp
  then show ?thesis using False by (simp only: takeWhile_dropWhile_id)
qed

lemma cstr_store_full:
  assumes "0 \<notin> set e" and "14 \<le> length e"
  shows "cstr 14 (store_bytes name 0 (take 14 e)) = take 14 e"
proof -
  have "map (store_bytes name 0 (take 14 e)) [0..<14] = take 14 e"
    using store_bytes_same [of name 0 "take 14 e"] assms(2) by simp
  moreover have "takeWhile (\<lambda>b. b \<noteq> 0) (take 14 e) = take 14 e"
    using assms(1) by (intro takeWhile_eq_all_conv [THEN iffD2]) (auto dest: in_set_takeD)
  ultimately show ?thesis by (simp add: cstr_def del: upt_rec_numeral)
qed

lemma cstr_store_short:
  assumes "0 \<notin> set e" and "length e < 14"
  shows "cstr 14 ((store_bytes name 0 e)(length e := 0)) = e"
proof -
  let ?n = "(store_bytes name 0 e)(length e := 0)"
  have "[0..<14] = [0..<length e] @ length e # [Suc (length e)..<14]"
    using assms(2) upt_add_eq_append [of 0 "length e" "14 - length e"] by (simp add: upt_conv_Cons)
  moreover have "map ?n [0..<length e] = e"
  proof -
    have "map ?n [0..<length e] = map (store_bytes name 0 e) [0..<length e]" by simp
    then show ?thesis using store_bytes_same [of name 0 e] by simp
  qed
  ultimately have "map ?n [0..<14] = e @ 0 # map ?n [Suc (length e)..<14]" by simp
  moreover have "takeWhile (\<lambda>b. b \<noteq> 0) (e @ 0 # xs) = e" for xs
    using assms(1) by (induction e) auto
  ultimately show ?thesis by (simp add: cstr_def del: upt_rec_numeral)
qed

lemma skipelem_elems:
  assumes "0 \<notin> set path"
  shows "case skipelem path name of
      None \<Rightarrow> path_elems path = []
    | Some (rest, name') \<Rightarrow> path_elems path \<noteq> [] \<and> path_elems rest = tl (path_elems path) \<and>
        cstr DIRSIZ name' = take DIRSIZ (hd (path_elems path)) \<and> (rest = [] \<longleftrightarrow> tl (path_elems path) = [])"
proof -
  let ?p = "dropWhile (\<lambda>c. c = SLASH) path"
  let ?e = "takeWhile (\<lambda>c. c \<noteq> SLASH) ?p" and ?r = "dropWhile (\<lambda>c. c \<noteq> SLASH) ?p"
  show ?thesis
  proof (cases "?p = []")
    case True
    then have "path_elems path = []" using path_elems_dropWhile [of path] unfolding True by (simp add: path_elems_def)
    then show ?thesis unfolding skipelem_def Let_def True by simp
  next
    case False
    have drop: "drop (length ?e) ?p = ?r" by (simp add: dropWhile_eq_drop)
    have "hd ?p \<noteq> SLASH" using hd_dropWhile [OF False] by simp
    then have ne: "?e \<noteq> []" using False by (intro takeWhile_nonempty)
    have "SLASH \<notin> set ?e" by (auto dest: set_takeWhileD)
    moreover have "?r = [] \<or> hd ?r = SLASH" using hd_dropWhile [of "\<lambda>c. c \<noteq> SLASH" ?p] by blast
    ultimately have "path_elems (?e @ ?r) = ?e # path_elems ?r" using ne by (intro path_elems_first)
    then have pe: "path_elems path = ?e # path_elems ?r"
      using path_elems_dropWhile [of path] by simp
    have rest: "path_elems (dropWhile (\<lambda>c. c = SLASH) ?r) = path_elems ?r" by (rule path_elems_dropWhile)
    have z: "0 \<notin> set ?e" using assms by (meson set_dropWhileD set_takeWhileD)
    have "cstr 14 (if length ?e \<ge> 14 then store_bytes name 0 (take 14 ?e) else (store_bytes name 0 ?e)(length ?e := 0))
        = take 14 ?e"
      using cstr_store_full [OF z] cstr_store_short [OF z] by auto
    moreover have "dropWhile (\<lambda>c. c = SLASH) ?r = [] \<longleftrightarrow> path_elems (dropWhile (\<lambda>c. c = SLASH) ?r) = []"
      by (rule path_elems_empty)
    ultimately show ?thesis unfolding skipelem_def Let_def drop pe using False rest by simp
  qed
qed

section \<open>Properties\<close>

text \<open>
  C21: The inodes of a block do not interfere and survive the trip to disk: after \<open>iupdate\<close>
  writes an inode into slot k of its block, \<open>ilock\<close> reads the same type, device numbers, link
  count, size and block addresses from slot k, and every other slot reads as before.
\<close>

theorem dinode_roundtrip:
  "get_dinode (put_dinode d k ip) j jp = (if j = k then copy_dinode ip jp else get_dinode d j jp)"
  using get_put_dinode get_put_dinode_other by simp

text \<open>
  C22: \<open>skipelem\<close> takes paths apart as documented: it finds an element exactly if the path has
  a non-empty piece between slashes, copies the first DIRSIZ bytes of that piece into the
  name, and returns the rest of the path, which is empty exactly after the last element.
\<close>

theorem skipelem_splits_path:
  assumes "0 \<notin> set path"
  shows "case skipelem path name of
      None \<Rightarrow> path_elems path = []
    | Some (rest, name') \<Rightarrow> path_elems path \<noteq> [] \<and> path_elems rest = tl (path_elems path) \<and>
        cstr DIRSIZ name' = take DIRSIZ (hd (path_elems path)) \<and> (rest = [] \<longleftrightarrow> tl (path_elems path) = [])"
  using assms by (rule skipelem_elems)

theorem skipelem_splits_path_witness:
  "path_elems [47, 47, 97, 47, 47, 98, 98] = [[97], [98, 98]] \<and>
   (\<exists>name'. skipelem [47, 47, 97, 47, 47, 98, 98] (\<lambda>_. 0) = Some ([98, 98], name') \<and> cstr 14 name' = [97])"
proof -
  have "path_elems [47, 47, 97, 47, 47, 98, 98] = [[97], [98, 98]]" by (simp add: path_elems_def)
  moreover have "\<exists>name'. skipelem [47, 47, 97, 47, 47, 98, 98] (\<lambda>_. 0) = Some ([98, 98], name')"
    by (simp add: skipelem_def)
  ultimately show ?thesis
    using skipelem_splits_path [of "[47, 47, 97, 47, 47, 98, 98]" "\<lambda>_. 0"] by auto
qed

end
