(* ===== verification/FsSpec.thy ===== *)
theory FsSpec
  imports FsFormat
begin

text \<open>
  What kernel/fs.c promises: the inode table holds an inode once and counts its references,
  and the block allocator hands out blocks that were free.
\<close>

section \<open>What the block operations keep\<close>

text \<open>Everything above the log is untouched by the operations on blocks.\<close>

abbreviation above :: "'z fss \<Rightarrow> 'z fs_state_ext" where
  "above s \<equiv> log_state.more s"

lemma more_above:
  fixes s s' :: "'z fss"
  assumes "bio_state.more s' = bio_state.more s"
  shows "above s' = above s"
  using assms by (cases s; cases s') simp

lemma above_inode:
  fixes s s' :: "'z fss"
  assumes "above s' = above s"
  shows "inode s' = inode s" "sb s' = sb s" "fs_state.more s' = fs_state.more s"
  using assms by (cases s; cases s'; simp)+

lemma kprintf_above: "kprintf fmt ap s = Inr s' \<Longrightarrow> above s' = above s"
  by (auto simp: kprintf_def split: option.splits)

lemma log_write_above: "log_write b s = Inr s' \<Longrightarrow> above s' = above s"
  by (auto simp: log_write_def bpin_def upd_buf_def Let_def split: if_splits option.splits)

lemma set_data_above [simp]: "above (set_data b d s) = above s"
  by (simp add: set_data_def upd_buf_def)

lemmas block_above = more_above [OF bread_more] more_above [OF bwrite_more] more_above [OF brelse_more]
  log_write_above kprintf_above

lemma bzero_above: "bzero dev b s = Inr s' \<Longrightarrow> above s' = above s"
  unfolding bzero_def by (auto dest!: block_above)

lemma balloc_from_above: "balloc_from dev bs s = Inr (r, s') \<Longrightarrow> above s' = above s"
proof (induction bs arbitrary: s)
  case Nil
  then show ?case by (auto dest: kprintf_above)
next
  case (Cons b bs)
  then obtain bp t where t: "bread dev (BBLOCK (of_nat b) (sb s)) s = Inr (bp, t)" by auto
  note ta = more_above [OF bread_more [OF t]]
  show ?case
  proof (cases "first_index (\<lambda>bi. b + bi < unat (sb_size (sb t)) \<and> \<not> bmap_bit (get_data bp t) bi) BPB")
    case None
    then obtain u where "brelse bp t = Inr u" "balloc_from dev bs u = Inr (r, s')"
      using Cons.prems t None unfolding balloc_from.simps by (auto simp only: None option.case bindE_eq_Inr prod.case)
    then show ?thesis using Cons.IH [of u] ta more_above [OF brelse_more] by metis
  next
    case (Some bi)
    then show ?thesis
      using Cons.prems t ta unfolding balloc_from.simps
      by (auto simp only: Some option.case bindE_eq_Inr prod.case dest!: block_above bzero_above) auto
  qed
qed

lemma balloc_above: "balloc dev s = Inr (r, s') \<Longrightarrow> above s' = above s"
  unfolding balloc_def by (rule balloc_from_above)



section \<open>The inode table\<close>

text \<open>
  What identifies the entries of the table, when the table is sound, and the number of
  references it holds to an inode.
\<close>

definition ids :: "'z fss \<Rightarrow> nat \<Rightarrow> int \<times> u32 \<times> u32" where
  "ids s i = (i_ref (inode s i), i_dev (inode s i), i_inum (inode s i))"











lemma upd_inode_keeps_ids:
  "i_ref (f (inode s i)) = i_ref (inode s i) \<Longrightarrow> i_dev (f (inode s i)) = i_dev (inode s i) \<Longrightarrow>
    i_inum (f (inode s i)) = i_inum (inode s i) \<Longrightarrow> ids (upd_inode i f s) = ids s"
  by (auto simp: fun_eq_iff ids_def upd_inode_def)

lemma above_ids: "above s' = above s \<Longrightarrow> ids s' = ids s"
  by (auto simp: fun_eq_iff ids_def dest: above_inode)

lemma set_addr_ids [simp]: "ids (set_addr ip i a s) = ids s"
  unfolding set_addr_def by (rule upd_inode_keeps_ids) simp_all

lemma wakeup_above [simp]:
  fixes s :: "'z fss"
  shows "above (wakeup c s) = above s"
  by (rule more_above) simp

lemma releasesleep_ids [simp]: "ids (releasesleep c (set_inode_lock i) s) = ids s"
proof -
  have "ids (releasesleep c (set_inode_lock i) s) = ids (set_inode_lock i \<lparr>sl_locked = False, sl_pid = 0\<rparr> s)"
    unfolding releasesleep_def by (rule above_ids) simp
  also have "\<dots> = ids s" unfolding set_inode_lock_def by (rule upd_inode_keeps_ids) simp_all
  finally show ?thesis .
qed





text \<open>A file system state with one inode in use, for the examples.\<close>

definition inode0 :: inode where
  "inode0 = \<lparr>i_dev = 0, i_inum = 0, i_ref = 0, i_lock = initsleeplock, i_valid = False, i_type = 0, i_major = 0,
     i_minor = 0, i_nlink = 0, i_size = 0, i_addrs = (\<lambda>_. 0)\<rparr>"

definition fs0 :: "unit fss" where
  "fs0 = log_state.extend lst0 (fs_state.fields
     \<lparr>sb_magic = FSMAGIC, sb_size = 2000, sb_nblocks = 1954, sb_ninodes = 200, sb_nlog = 30, sb_logstart = 2,
       sb_inodestart = 32, sb_bmapstart = 45\<rparr>
     (\<lambda>i. if i = 3 then inode0\<lparr>i_dev := ROOTDEV, i_inum := 5, i_ref := 2\<rparr> else inode0))"

lemma fs0_inode [simp]:
  "inode fs0 = (\<lambda>i. if i = 3 then inode0\<lparr>i_dev := ROOTDEV, i_inum := 5, i_ref := 2\<rparr> else inode0)"
  by (simp add: fs0_def log_state.defs fs_state.defs)


section \<open>Properties\<close>



end
