(* ===== verification/Ring.thy ===== *)
theory Ring
  imports Prelude
begin

text \<open>
  Ring buffers with free-running indices, as in kernel/pipe.c, kernel/uart.c and
  kernel/console.c: the read and write indices are unsigned machine words that wrap around,
  and a byte is found at its index modulo the size of the buffer.
\<close>

section \<open>Contents of a ring\<close>

definition ring_list :: "nat \<Rightarrow> (nat \<Rightarrow> 'a) \<Rightarrow> 'w::len word \<Rightarrow> 'w word \<Rightarrow> 'a list" where
  "ring_list cap d r w = map (\<lambda>i. d (unat (r + of_nat i) mod cap)) [0..<unat (w - r)]"

lemma ring_list_length [simp]: "length (ring_list cap d r w) = unat (w - r)"
  by (simp add: ring_list_def)

lemma ring_list_empty [simp]: "ring_list cap d r r = []"
  by (simp add: ring_list_def)

lemma ring_empty_iff: "ring_list cap d r w = [] \<longleftrightarrow> r = w"
  using ring_list_length [of cap d r w] by (metis length_0_conv right_minus_eq unat_eq_zero)

lemma unat_add_of_nat_mod:
  fixes r :: "'w::len word"
  assumes "cap dvd 2 ^ LENGTH('w)"
  shows "unat (r + of_nat i) mod cap = (unat r + i) mod cap"
proof -
  have "unat (r + of_nat i) = (unat r + i) mod 2 ^ LENGTH('w)"
    by (simp add: unat_word_ariths unat_of_nat mod_simps)
  then show ?thesis using assms by (simp add: mod_mod_cancel)
qed

lemma unat_Suc_diff:
  fixes r w :: "'w::len word"
  assumes "unat (w - r) < cap" and "cap < 2 ^ LENGTH('w)"
  shows "unat (w + 1 - r) = Suc (unat (w - r))"
proof -
  have "unat ((w - r) + 1) = Suc (unat (w - r)) mod 2 ^ LENGTH('w)" 
    using unat_word_ariths(1) [of "w - r" 1] by (simp only: unat_1 add_Suc_right add_0_right One_nat_def)
  moreover have "w + 1 - r = (w - r) + 1" by simp
  ultimately show ?thesis using assms by (metis Suc_lessI less_trans_Suc mod_less not_less_eq order_less_trans)
qed

lemma ring_put:
  fixes r w :: "'w::len word"
  assumes "unat (w - r) < cap" and "cap dvd 2 ^ LENGTH('w)" and "cap < 2 ^ LENGTH('w)"
  shows "ring_list cap (d(unat w mod cap := x)) r (w + 1) = ring_list cap d r w @ [x]"
proof -
  let ?k = "unat (w - r)"
  have wr: "w = r + of_nat ?k" by simp
  have top: "unat w mod cap = (unat r + ?k) mod cap"
    using unat_add_of_nat_mod [OF assms(2), of r ?k] wr [symmetric] by (simp only:)
  have same: "(d(unat w mod cap := x)) (unat (r + of_nat i) mod cap) = d (unat (r + of_nat i) mod cap)" if "i < ?k" for i
  proof -
    have "(unat r + i) mod cap \<noteq> (unat r + ?k) mod cap"
    proof
      assume "(unat r + i) mod cap = (unat r + ?k) mod cap"
      then have "cap dvd (unat r + ?k) - (unat r + i)" by (metis mod_eq_dvd_iff_nat that less_imp_le nat_add_left_cancel_le)
      then have "cap dvd ?k - i" by simp
      then show False using that assms(1) by (meson dvd_imp_le less_imp_diff_less not_le zero_less_diff)
    qed
    then show ?thesis using top unat_add_of_nat_mod [OF assms(2), of r i] by simp
  qed
  have "ring_list cap (d(unat w mod cap := x)) r (w + 1) =
      map (\<lambda>i. (d(unat w mod cap := x)) (unat (r + of_nat i) mod cap)) [0..<Suc ?k]"
    by (simp only: ring_list_def unat_Suc_diff [OF assms(1,3)])
  also have "\<dots> = map (\<lambda>i. d (unat (r + of_nat i) mod cap)) [0..<?k] @ [x]"
    using same by simp
  finally show ?thesis by (simp add: ring_list_def)
qed

lemma unat_diff_less:
  fixes r w :: "'w::len word"
  assumes "r \<noteq> w"
  shows "unat (w - (r + 1)) < unat (w - r)"
proof -
  have ne: "w - r \<noteq> 0" using assms by simp
  have "w - (r + 1) = (w - r) - 1" by simp
  then have "unat (w - (r + 1)) = unat (w - r) - 1" using ne by (metis unat_minus_one)
  moreover have "0 < unat (w - r)" using ne by (simp add: unat_gt_0)
  ultimately show ?thesis by linarith
qed

lemma ring_get:
  fixes r w :: "'w::len word"
  assumes "r \<noteq> w"
  shows "ring_list cap d r w = d (unat r mod cap) # ring_list cap d (r + 1) w"
proof -
  have "w - r \<noteq> 0" using assms by simp
  then have pos: "0 < unat (w - r)" by (simp add: unat_gt_0)
  have "w - (r + 1) = (w - r) - 1" by simp
  then have k: "unat (w - (r + 1)) = unat (w - r) - 1" using \<open>w - r \<noteq> 0\<close> by (metis unat_minus_one)
  have "[0..<unat (w - r)] = 0 # map Suc [0..<unat (w - r) - 1]"
    using pos by (simp add: map_Suc_upt upt_conv_Cons)
  then show ?thesis by (simp add: ring_list_def k add.assoc)
qed

section \<open>The contract of a bounded queue\<close>

text \<open>
  What the users of a ring rely on: the contents as a list, adding at the end when there is
  room, taking from the front when there is something.
\<close>

locale bounded_queue =
  fixes contents :: "'s \<Rightarrow> 'a list"
    and put :: "'a \<Rightarrow> 's \<Rightarrow> 's"
    and get :: "'s \<Rightarrow> 'a \<times> 's"
    and cap :: nat
  assumes put_law: "length (contents s) < cap \<Longrightarrow> contents (put x s) = contents s @ [x]"
    and get_law: "contents s \<noteq> [] \<Longrightarrow> contents s = fst (get s) # contents (snd (get s))"
begin

fun puts :: "'a list \<Rightarrow> 's \<Rightarrow> 's" where
  "puts [] s = s"
| "puts (x # xs) s = puts xs (put x s)"

fun gets :: "nat \<Rightarrow> 's \<Rightarrow> 'a list \<times> 's" where
  "gets 0 s = ([], s)"
| "gets (Suc n) s = (let (x, s) = get s; (xs, s) = gets n s in (x # xs, s))"

lemma puts_contents: "length (contents s) + length xs \<le> cap \<Longrightarrow> contents (puts xs s) = contents s @ xs"
  by (induction xs arbitrary: s) (simp_all add: put_law)

lemma gets_contents:
  "n \<le> length (contents s) \<Longrightarrow> fst (gets n s) = take n (contents s) \<and> contents (snd (gets n s)) = drop n (contents s)"
proof (induction n arbitrary: s)
  case (Suc n)
  then have ne: "contents s \<noteq> []" by auto
  note g = get_law [OF ne]
  obtain y t where t: "get s = (y, t)" by (cases "get s")
  then have c: "contents s = y # contents t" using g by simp
  then have "n \<le> length (contents t)" using Suc.prems by simp
  from Suc.IH [OF this] show ?case using c t by (simp add: case_prod_unfold)
qed simp

text \<open>First in, first out: what is put in comes out in the same order.\<close>

lemma fifo:
  assumes "contents s = []" and "length xs \<le> cap"
  shows "fst (gets (length xs) (puts xs s)) = xs \<and> contents (snd (gets (length xs) (puts xs s))) = []"
  using gets_contents [of "length xs" "puts xs s"] puts_contents [of s xs] assms by simp

end

end
