(* ===== verification/Uart.thy ===== *)
theory Uart
  imports Fs Ring
begin

text \<open>
  kernel/uart.c, the driver of the 16550a.  The device is seen through its registers: what
  successive reads of the line status register say about the transmitter
  (\<open>uart_idle\<close>), the bytes it has received (\<open>uart_rx\<close>), the control registers written, and
  the bytes written to the transmit register, which extend \<open>cons_out\<close>.  Spinning until the
  transmitter is idle changes nothing, so \<open>uartputc_sync\<close> is the write that follows.
\<close>

section \<open>State and operations\<close>

abbreviation (input) UART_TX_BUF_SIZE :: nat where "UART_TX_BUF_SIZE \<equiv> 32"
abbreviation (input) THR :: nat where "THR \<equiv> 0"
abbreviation (input) IER :: nat where "IER \<equiv> 1"
abbreviation (input) FCR :: nat where "FCR \<equiv> 2"
abbreviation (input) LCR :: nat where "LCR \<equiv> 3"

record uart_state = fs_state +
  uart_tx_buf :: "nat \<Rightarrow> u8"
  uart_tx_w :: u64
  uart_tx_r :: u64
  uart_idle :: "nat \<Rightarrow> bool"
  uart_rx :: "u8 list"
  uart_ctl :: "(nat \<times> u8) list"

type_synonym 'z ust = "'z uart_state_scheme"

definition uartinit :: "'z ust \<Rightarrow> 'z ust" where
  "uartinit s = s\<lparr>uart_ctl := uart_ctl s @
     [(IER, 0x00), (LCR, 0x80), (0, 0x03), (1, 0x00), (LCR, 0x03), (FCR, 0x07), (IER, 0x03)]\<rparr>"

definition thr_write :: "u8 \<Rightarrow> 'z pst \<Rightarrow> 'z pst" where
  "thr_write c s = s\<lparr>cons_out := cons_out s @ [char_of (unat c)]\<rparr>"

definition uartputc_sync :: "int \<Rightarrow> 'z pst \<Rightarrow> 'z pst" where
  "uartputc_sync c s = thr_write (word_of_int c) s"

text \<open>The two accesses to the ring \<open>uart_tx_buf\<close>.\<close>

definition tx_put :: "u8 \<Rightarrow> 'z ust \<Rightarrow> 'z ust" where
  "tx_put c s = s\<lparr>uart_tx_buf := (uart_tx_buf s)(unat (uart_tx_w s) mod UART_TX_BUF_SIZE := c),
     uart_tx_w := uart_tx_w s + 1\<rparr>"

definition tx_get :: "'z ust \<Rightarrow> u8 \<times> 'z ust" where
  "tx_get s = (uart_tx_buf s (unat (uart_tx_r s) mod UART_TX_BUF_SIZE), s\<lparr>uart_tx_r := uart_tx_r s + 1\<rparr>)"

definition tx_list :: "'z ust \<Rightarrow> u8 list" where
  "tx_list s = ring_list UART_TX_BUF_SIZE (uart_tx_buf s) (uart_tx_r s) (uart_tx_w s)"

lemma more_uart:
  fixes s s' :: "'z ust"
  assumes "bio_state.more s' = bio_state.more s"
  shows "uart_tx_buf s' = uart_tx_buf s \<and> uart_tx_w s' = uart_tx_w s \<and> uart_tx_r s' = uart_tx_r s \<and>
    uart_idle s' = uart_idle s \<and> uart_rx s' = uart_rx s \<and> uart_state.more s' = uart_state.more s"
  using assms by (cases s; cases s') simp

lemma wakeup_uart [simp]:
  fixes s :: "'z ust"
  shows "uart_tx_buf (wakeup c s) = uart_tx_buf s" "uart_tx_w (wakeup c s) = uart_tx_w s"
    "uart_tx_r (wakeup c s) = uart_tx_r s" "uart_idle (wakeup c s) = uart_idle s" "uart_rx (wakeup c s) = uart_rx s"
    "uart_state.more (wakeup c s) = uart_state.more s"
  using more_uart [of "wakeup c s" s] by simp_all

lemma wakeup_cons_out [simp]: "cons_out (wakeup c s) = cons_out s"
proof -
  have "cons_out (fold (\<lambda>p. upd_proc p (g p)) xs s) = cons_out s" for g xs s
    by (induction xs arbitrary: s) (auto simp: upd_proc_def)
  then show ?thesis by (simp add: wakeup_def wakeup_fold del: upt_rec_numeral)
qed

function uartstart :: "'z ust \<Rightarrow> 'z ust" where
  "uartstart s =
     (if uart_tx_w s = uart_tx_r s then s
      else let idle = uart_idle s 0; s = s\<lparr>uart_idle := (\<lambda>k. uart_idle s (Suc k))\<rparr> in
        if \<not> idle then s
        else let (c, s) = tx_get s; s = wakeup (Some ChanUartTx) s in
          uartstart (thr_write c s))"
  by pat_completeness auto
termination
  by (relation "measure (\<lambda>s. unat (uart_tx_w s - uart_tx_r s))")
     (auto simp: tx_get_def thr_write_def intro!: unat_diff_less)

declare uartstart.simps [simp del]

definition uartputc :: "u8 \<Rightarrow> 'z ust \<Rightarrow> 'z ust stop + 'z ust" where
  "uartputc c s =
     (if uart_tx_w s = uart_tx_r s + of_nat UART_TX_BUF_SIZE then sleep ChanUartTx s
      else Inr (uartstart (tx_put c s)))"

definition uartgetc :: "'z ust \<Rightarrow> int \<times> 'z ust" where
  "uartgetc s = (case uart_rx s of [] \<Rightarrow> (- 1, s) | c # cs \<Rightarrow> (uint c, s\<lparr>uart_rx := cs\<rparr>))"

section \<open>The transmit queue\<close>

text \<open>A queue never holds more than its size: the test in \<open>uartputc\<close>.\<close>

definition tx_ok :: "'z ust \<Rightarrow> bool" where
  "tx_ok s \<longleftrightarrow> unat (uart_tx_w s - uart_tx_r s) \<le> UART_TX_BUF_SIZE"

lemma tx_not_full:
  assumes "tx_ok s" and "uart_tx_w s \<noteq> uart_tx_r s + of_nat UART_TX_BUF_SIZE"
  shows "unat (uart_tx_w s - uart_tx_r s) < UART_TX_BUF_SIZE"
proof -
  have "unat (uart_tx_w s - uart_tx_r s) \<noteq> unat (32 :: u64)"
  proof
    assume "unat (uart_tx_w s - uart_tx_r s) = unat (32 :: u64)"
    then have "uart_tx_w s - uart_tx_r s = 32" by (rule unsigned_word_eqI)
    then show False using assms(2) by (simp add: algebra_simps)
  qed
  then show ?thesis using assms(1) by (simp add: tx_ok_def)
qed

interpretation tx: bounded_queue tx_list tx_put tx_get UART_TX_BUF_SIZE
proof
  fix s :: "'z ust" and x
  show "length (tx_list s) < 32 \<Longrightarrow> tx_list (tx_put x s) = tx_list s @ [x]"
    using ring_put [of "uart_tx_w s" "uart_tx_r s" 32] by (simp add: tx_list_def tx_put_def)
  show "tx_list s \<noteq> [] \<Longrightarrow> tx_list s = fst (tx_get s) # tx_list (snd (tx_get s))"
    using ring_get [of "uart_tx_r s" "uart_tx_w s" 32] by (auto simp: tx_list_def tx_get_def ring_empty_iff)
qed

text \<open>\<open>uartstart\<close> sends a prefix of the queue, in order, and loses nothing.\<close>

lemma uartstart_sends:
  "\<exists>n. n \<le> length (tx_list s) \<and> cons_out (uartstart s) = cons_out s @ map (\<lambda>c. char_of (unat c)) (take n (tx_list s)) \<and>
    tx_list (uartstart s) = drop n (tx_list s) \<and> uart_tx_w (uartstart s) = uart_tx_w s"
proof (induction s rule: uartstart.induct)
  case (1 s)
  show ?case
  proof (cases "uart_tx_w s = uart_tx_r s \<or> \<not> uart_idle s 0")
    case True
    then have "cons_out (uartstart s) = cons_out s \<and> tx_list (uartstart s) = tx_list s \<and> uart_tx_w (uartstart s) = uart_tx_w s"
      by (auto simp: uartstart.simps [of s] tx_list_def Let_def)
    then show ?thesis by (intro exI [of _ 0]) simp
  next
    case False
    let ?t = "s\<lparr>uart_idle := (\<lambda>k. uart_idle s (Suc k))\<rparr>"
    let ?c = "fst (tx_get ?t)" and ?u = "snd (tx_get ?t)"
    let ?v = "thr_write ?c (wakeup (Some ChanUartTx) ?u)"
    have step: "uartstart s = uartstart ?v" using False by (simp add: uartstart.simps [of s] Let_def case_prod_unfold)
    have u: "tx_list s = ?c # tx_list ?u"
      using ring_get [of "uart_tx_r s" "uart_tx_w s" 32] False by (auto simp: tx_list_def tx_get_def)
    have v: "tx_list ?v = tx_list ?u" "cons_out ?v = cons_out s @ [char_of (unat ?c)]" "uart_tx_w ?v = uart_tx_w s"
      by (simp_all add: tx_list_def thr_write_def tx_get_def)
    from 1 [OF _ refl refl, of "tx_get ?t" ?c ?u] False
    obtain n where "n \<le> length (tx_list ?v)" "cons_out (uartstart ?v) = cons_out ?v @ map (\<lambda>c. char_of (unat c)) (take n (tx_list ?v))"
      "tx_list (uartstart ?v) = drop n (tx_list ?v)" "uart_tx_w (uartstart ?v) = uart_tx_w ?v" by auto
    then show ?thesis using u v step by (intro exI [of _ "Suc n"]) simp
  qed
qed

end
