(* ===== verification/Console.thy ===== *)
theory Console
  imports Uart
begin

text \<open>
  kernel/console.c and kernel/historyBuffer.h: the console's input line buffer, its read
  and write routines, its interrupt handler, and the command history kept by the handler.
  An access outside one of the history's arrays is undefined in C and is a Fault here.
\<close>

section \<open>State\<close>

abbreviation (input) BACKSPACE :: int where "BACKSPACE \<equiv> 0x100"
abbreviation (input) INPUT_BUF_SIZE :: nat where "INPUT_BUF_SIZE \<equiv> 128"
abbreviation (input) MAX_HISTORY :: nat where "MAX_HISTORY \<equiv> 16"
abbreviation (input) CTRL_D :: int where "CTRL_D \<equiv> 4"
abbreviation (input) CTRL_H :: int where "CTRL_H \<equiv> 8"
abbreviation (input) CTRL_P :: int where "CTRL_P \<equiv> 16"
abbreviation (input) CTRL_U :: int where "CTRL_U \<equiv> 21"
abbreviation (input) NEWLINE :: int where "NEWLINE \<equiv> 10"
abbreviation (input) DELETE :: int where "DELETE \<equiv> 127"

record historyBufferArray =
  bufferArr :: "nat \<Rightarrow> nat \<Rightarrow> u8"
  lengthsArr :: "nat \<Rightarrow> u32"
  lastCommandIndex :: u32
  current_cm :: "nat \<Rightarrow> u8"

record cons_state = uart_state +
  cons_buf :: "nat \<Rightarrow> u8"
  cons_r :: u32
  cons_w :: u32
  cons_e :: u32
  historyBuf :: historyBufferArray
  index :: int
  row :: int

type_synonym 'z cst = "'z cons_state_scheme"

section \<open>Output\<close>

definition consputc :: "int \<Rightarrow> 'z pst \<Rightarrow> 'z pst" where
  "consputc c s =
     (if c = BACKSPACE then uartputc_sync 8 (uartputc_sync 32 (uartputc_sync 8 s)) else uartputc_sync c s)"

text \<open>
  The loop of \<open>consolewrite\<close> from index i.  When the transmit buffer is full the process
  sleeps inside \<open>uartputc\<close>; the bytes before have been sent.
\<close>

function consolewrite_from :: "bool \<Rightarrow> u64 \<Rightarrow> int \<Rightarrow> int \<Rightarrow> 'z cst \<Rightarrow> 'z cst stop + int \<times> 'z cst" where
  "consolewrite_from user_src src n i s =
     (if \<not> i < n then Inr (i, s)
      else bindE (either_copyin user_src (src + word_of_int i) 1 s) (\<lambda>(r, bs).
        if r = - 1 then Inr (i, s)
        else bindE (uartputc (hd bs) s) (\<lambda>s. consolewrite_from user_src src n (i + 1) s)))"
  by pat_completeness auto
termination
  by (relation "measure (\<lambda>(user_src, src, n, i, s). nat (n - i))") auto

declare consolewrite_from.simps [simp del]

definition consolewrite :: "bool \<Rightarrow> u64 \<Rightarrow> int \<Rightarrow> 'z cst \<Rightarrow> 'z cst stop + int \<times> 'z cst" where
  "consolewrite user_src src n s = consolewrite_from user_src src n 0 s"

section \<open>Input\<close>

definition cons_get :: "'z cst \<Rightarrow> u8 \<times> 'z cst" where
  "cons_get s = (cons_buf s (unat (cons_r s) mod INPUT_BUF_SIZE), s\<lparr>cons_r := cons_r s + 1\<rparr>)"

text \<open>
  The loop of \<open>consoleread\<close> with n bytes still wanted; with no input the process sleeps and
  tests again when it is woken.
\<close>

function consoleread_from :: "bool \<Rightarrow> u64 \<Rightarrow> int \<Rightarrow> int \<Rightarrow> 'z cst \<Rightarrow> 'z cst stop + int \<times> 'z cst" where
  "consoleread_from user_dst dst target n s =
     (if \<not> n > 0 then Inr (target - n, s)
      else if cons_r s = cons_w s
      then with_myproc s (\<lambda>p. if killed p s \<noteq> 0 then Inr (- 1, s) else sleep ChanConsRead s)
      else let (c, s) = cons_get s in
        if uint c = CTRL_D
        then Inr (target - n, if n < target then s\<lparr>cons_r := cons_r s - 1\<rparr> else s)
        else bindE (either_copyout user_dst dst [c] s) (\<lambda>(r, s).
          if r = - 1 then Inr (target - n, s)
          else if uint c = NEWLINE then Inr (target - (n - 1), s)
          else consoleread_from user_dst (dst + 1) target (n - 1) s))"
  by pat_completeness auto
termination
  by (relation "measure (\<lambda>(user_dst, dst, target, n, s). nat n)") auto

declare consoleread_from.simps [simp del]

definition consoleread :: "bool \<Rightarrow> u64 \<Rightarrow> int \<Rightarrow> 'z cst \<Rightarrow> 'z cst stop + int \<times> 'z cst" where
  "consoleread user_dst dst n s = consoleread_from user_dst dst n n s"

section \<open>The interrupt handler\<close>

text \<open>
  \<open>call_sys_history\<close> scans the current command for a newline and copies it into row
  \<open>row\<close>.  The array \<open>current_cm\<close> has INPUT\_BUF\_SIZE bytes.
\<close>

definition call_sys_history :: "'z cst \<Rightarrow> 'z cst stop + 'z cst" where
  "call_sys_history s =
     (let h = historyBuf s;
          h = (if lastCommandIndex h = 15 then h\<lparr>lastCommandIndex := 0\<rparr> else h) in
      case first_index (\<lambda>i. current_cm h i = 10) INPUT_BUF_SIZE of
        None \<Rightarrow> Inl (Fault ''call_sys_history: current_cm'')
      | Some sz \<Rightarrow>
          if row s < 0 \<or> row s \<ge> int MAX_HISTORY then Inl (Fault ''call_sys_history: bufferArr'')
          else let k = nat (row s);
                   h = h\<lparr>lengthsArr := (lengthsArr h)(k := of_nat sz),
                         bufferArr := (bufferArr h)(k := (\<lambda>i. if i < sz then current_cm h i else bufferArr h k i))\<rparr>
            in Inr (s\<lparr>historyBuf := h, row := row s + 1\<rparr>))"

text \<open>Echoing an earlier command: row k of the history.\<close>

definition echo_command :: "u32 \<Rightarrow> 'z cst \<Rightarrow> 'z cst stop + 'z cst" where
  "echo_command k s =
     (let h = historyBuf s in
      if unat k \<ge> MAX_HISTORY \<or> unat (lengthsArr h (unat k)) > INPUT_BUF_SIZE then Inl (Fault ''consoleintr: history'')
      else Inr (fold (\<lambda>i. consputc (uint (bufferArr h (unat k) i))) [0..<unat (lengthsArr h (unat k))] s))"

function kill_line :: "'z cst \<Rightarrow> 'z cst" where
  "kill_line s =
     (if cons_e s \<noteq> cons_w s \<and> cons_buf s (unat (cons_e s - 1) mod INPUT_BUF_SIZE) \<noteq> 10
      then kill_line (consputc BACKSPACE (s\<lparr>cons_e := cons_e s - 1\<rparr>))
      else s)"
  by pat_completeness auto

lemma consputc_cons [simp]:
  fixes s :: "'z cst"
  shows "cons_buf (consputc c s) = cons_buf s" "cons_r (consputc c s) = cons_r s" "cons_w (consputc c s) = cons_w s"
    "cons_e (consputc c s) = cons_e s" "historyBuf (consputc c s) = historyBuf s" "index (consputc c s) = index s"
    "row (consputc c s) = row s"
  by (simp_all add: consputc_def uartputc_sync_def thr_write_def)

lemma unat_less_pred:
  fixes e w :: "'a::len word"
  assumes "e \<noteq> w"
  shows "unat (e - 1 - w) < unat (e - w)"
proof -
  have ne: "e - w \<noteq> 0" using assms by simp
  have "e - 1 - w = (e - w) - 1" by simp
  then have "unat (e - 1 - w) = unat (e - w) - 1" using ne by (metis unat_minus_one)
  moreover have "0 < unat (e - w)" using ne by (simp add: unat_gt_0)
  ultimately show ?thesis by linarith
qed

termination kill_line
  by (relation "measure (\<lambda>s. unat (cons_e s - cons_w s))") (auto intro!: unat_less_pred)

declare kill_line.simps [simp del]

definition consoleintr :: "int \<Rightarrow> 'z cst \<Rightarrow> 'z cst stop + 'z cst" where
  "consoleintr c s =
     (if c = CTRL_P then procdump s
      else if c = CTRL_U then Inr (kill_line s)
      else if c = CTRL_H \<or> c = DELETE
      then let s = s\<lparr>index := index s - 1\<rparr> in
        Inr (if cons_e s \<noteq> cons_w s then consputc BACKSPACE (s\<lparr>cons_e := cons_e s - 1\<rparr>) else s)
      else if c = 0x41 then echo_command (lastCommandIndex (historyBuf s) - 1) s
      else if c = 0x42 then echo_command (lastCommandIndex (historyBuf s) + 2) s
      else if c \<noteq> 0 \<and> unat (cons_e s - cons_r s) < INPUT_BUF_SIZE
      then let c = (if c = 13 then NEWLINE else c) in
        if index s < 0 \<or> index s \<ge> int INPUT_BUF_SIZE then Inl (Fault ''consoleintr: current_cm'')
        else let s = s\<lparr>historyBuf := (historyBuf s)\<lparr>current_cm := (current_cm (historyBuf s))(nat (index s) := word_of_int c)\<rparr>,
                       index := index s + 1\<rparr>;
                 s = consputc c s;
                 s = s\<lparr>cons_buf := (cons_buf s)(unat (cons_e s) mod INPUT_BUF_SIZE := word_of_int c), cons_e := cons_e s + 1\<rparr> in
          if c = NEWLINE \<or> c = CTRL_D \<or> unat (cons_e s - cons_r s) = INPUT_BUF_SIZE
          then bindE (call_sys_history (s\<lparr>index := 0\<rparr>)) (\<lambda>s.
               Inr (wakeup (Some ChanConsRead)
                 (s\<lparr>historyBuf := (historyBuf s)\<lparr>lastCommandIndex := lastCommandIndex (historyBuf s) + 1\<rparr>,
                    cons_w := cons_e s\<rparr>)))
          else Inr s
      else Inr s)"

text \<open>\<open>uartintr\<close> hands every received byte to the console, then sends what is waiting.\<close>

definition uartintr :: "'z cst \<Rightarrow> 'z cst stop + 'z cst" where
  "uartintr s =
     bindE (foldE (\<lambda>c s. consoleintr (uint c) s) (uart_rx s) (s\<lparr>uart_rx := []\<rparr>)) (\<lambda>s.
     Inr (uartstart s))"

end
