(* ===== verification/File.thy ===== *)
theory File
  imports Console
begin

text \<open>
  kernel/file.c and kernel/pipe.c: the table of open files and the pipes.  A file is named by
  its index in \<open>ftable.file\<close>.  A pipe is named by the address of the page \<open>kalloc\<close> gave it and
  its fields are kept in a store indexed by that address.  \<open>devsw\<close> has the two routines of
  the console or nothing.  A sleep inside a loop ends the call with the state in which
  the process sleeps; the loops are functions of their counter, so that the call goes on
  from there when the process is woken.
\<close>

section \<open>State\<close>

abbreviation (input) PIPESIZE :: nat where "PIPESIZE \<equiv> 512"
abbreviation (input) CONSOLE :: nat where "CONSOLE \<equiv> 1"

datatype filetype = FD_NONE | FD_PIPE | FD_INODE | FD_DEVICE

record kfile =
  f_type :: filetype
  f_ref :: int
  f_readable :: bool
  f_writable :: bool
  f_pipe :: u64
  f_ip :: nat
  f_off :: u32
  f_major :: u16

record pipe =
  pi_data :: "nat \<Rightarrow> u8"
  pi_nread :: u32
  pi_nwrite :: u32
  pi_readopen :: bool
  pi_writeopen :: bool

record file_state = cons_state +
  ftable :: "nat \<Rightarrow> kfile"
  pipes :: "u64 \<Rightarrow> pipe"
  devsw_console :: "nat \<Rightarrow> bool"  \<comment> \<open>whether the entry has the console's routines\<close>

type_synonym 'z fls = "'z file_state_scheme"

definition upd_file :: "nat \<Rightarrow> (kfile \<Rightarrow> kfile) \<Rightarrow> 'z fls \<Rightarrow> 'z fls" where
  "upd_file i f s = s\<lparr>ftable := (ftable s)(i := f (ftable s i))\<rparr>"

definition upd_pipe :: "u64 \<Rightarrow> (pipe \<Rightarrow> pipe) \<Rightarrow> 'z fls \<Rightarrow> 'z fls" where
  "upd_pipe a f s = s\<lparr>pipes := (pipes s)(a := f (pipes s a))\<rparr>"

definition consoleinit :: "'z fls \<Rightarrow> 'z fls" where
  "consoleinit s = (let s = uartinit s in s\<lparr>devsw_console := (devsw_console s)(CONSOLE := True)\<rparr>)"

section \<open>Pipes\<close>

definition pipeclose :: "u64 \<Rightarrow> bool \<Rightarrow> 'z fls \<Rightarrow> 'z fls stop + 'z fls" where
  "pipeclose pi writable s =
     (let s = (if writable then wakeup (Some (ChanPipeRead pi)) (upd_pipe pi (\<lambda>r. r\<lparr>pi_writeopen := False\<rparr>) s)
               else wakeup (Some (ChanPipeWrite pi)) (upd_pipe pi (\<lambda>r. r\<lparr>pi_readopen := False\<rparr>) s)) in
      if \<not> pi_readopen (pipes s pi) \<and> \<not> pi_writeopen (pipes s pi) then kfree pi s else Inr s)"

text \<open>The two accesses to the ring of a pipe.\<close>

definition pipe_put :: "u8 \<Rightarrow> pipe \<Rightarrow> pipe" where
  "pipe_put ch r = r\<lparr>pi_data := (pi_data r)(unat (pi_nwrite r) mod PIPESIZE := ch), pi_nwrite := pi_nwrite r + 1\<rparr>"

definition pipe_get :: "pipe \<Rightarrow> u8 \<times> pipe" where
  "pipe_get r = (pi_data r (unat (pi_nread r) mod PIPESIZE), r\<lparr>pi_nread := pi_nread r + 1\<rparr>)"

function pipewrite_from :: "u64 \<Rightarrow> u64 \<Rightarrow> int \<Rightarrow> int \<Rightarrow> 'z fls \<Rightarrow> 'z fls stop + int \<times> 'z fls" where
  "pipewrite_from pi addr n i s = with_myproc s (\<lambda>pr.
     if \<not> i < n then Inr (i, wakeup (Some (ChanPipeRead pi)) s)
     else if \<not> pi_readopen (pipes s pi) \<or> killed pr s \<noteq> 0 then Inr (- 1, s)
     else if pi_nwrite (pipes s pi) = pi_nread (pipes s pi) + of_nat PIPESIZE
     then sleep (ChanPipeWrite pi) (wakeup (Some (ChanPipeRead pi)) s)
     else let (r, bs) = copyin (p_pagetable (proc s pr)) (addr + word_of_int i) 1 s in
       if r = - 1 then Inr (i, wakeup (Some (ChanPipeRead pi)) s)
       else pipewrite_from pi addr n (i + 1) (upd_pipe pi (pipe_put (hd bs)) s))"
  by pat_completeness auto
termination
  by (relation "measure (\<lambda>(pi, addr, n, i, s). nat (n - i))") auto

declare pipewrite_from.simps [simp del]

definition pipewrite :: "u64 \<Rightarrow> u64 \<Rightarrow> int \<Rightarrow> 'z fls \<Rightarrow> 'z fls stop + int \<times> 'z fls" where
  "pipewrite pi addr n s = pipewrite_from pi addr n 0 s"

text \<open>The copying loop of \<open>piperead\<close>.\<close>

function piperead_from :: "u64 \<Rightarrow> u64 \<Rightarrow> u64 \<Rightarrow> int \<Rightarrow> int \<Rightarrow> 'z fls \<Rightarrow> int \<times> 'z fls" where
  "piperead_from pagetable pi addr n i s =
     (if \<not> i < n \<or> pi_nread (pipes s pi) = pi_nwrite (pipes s pi) then (i, s)
      else let (ch, r) = pipe_get (pipes s pi);
               (e, s) = copyout pagetable (addr + word_of_int i) [ch] (upd_pipe pi (\<lambda>_. r) s) in
        if e = - 1 then (i, s) else piperead_from pagetable pi addr n (i + 1) s)"
  by pat_completeness auto
termination
  by (relation "measure (\<lambda>(pagetable, pi, addr, n, i, s). nat (n - i))") auto

declare piperead_from.simps [simp del]

definition piperead :: "u64 \<Rightarrow> u64 \<Rightarrow> int \<Rightarrow> 'z fls \<Rightarrow> 'z fls stop + int \<times> 'z fls" where
  "piperead pi addr n s = with_myproc s (\<lambda>pr.
     if pi_nread (pipes s pi) = pi_nwrite (pipes s pi) \<and> pi_writeopen (pipes s pi)
     then if killed pr s \<noteq> 0 then Inr (- 1, s) else sleep (ChanPipeRead pi) s
     else let (i, s) = piperead_from (p_pagetable (proc s pr)) pi addr n 0 s in
       Inr (i, wakeup (Some (ChanPipeWrite pi)) s))"

section \<open>Files\<close>

definition filealloc :: "'z fls \<Rightarrow> nat option \<times> 'z fls" where
  "filealloc s =
     (case first_index (\<lambda>f. f_ref (ftable s f) = 0) NFILE of
        Some f \<Rightarrow> (Some f, upd_file f (\<lambda>r. r\<lparr>f_ref := 1\<rparr>) s)
      | None \<Rightarrow> (None, s))"

definition filedup :: "nat \<Rightarrow> 'z fls \<Rightarrow> 'z fls stop + 'z fls" where
  "filedup f s =
     (if f_ref (ftable s f) < 1 then Inl (Panic ''filedup'')
      else Inr (upd_file f (\<lambda>r. r\<lparr>f_ref := f_ref r + 1\<rparr>) s))"

definition fileclose :: "nat \<Rightarrow> 'z fls \<Rightarrow> 'z fls stop + 'z fls" where
  "fileclose f s =
     (if f_ref (ftable s f) < 1 then Inl (Panic ''fileclose'')
      else let s = upd_file f (\<lambda>r. r\<lparr>f_ref := f_ref r - 1\<rparr>) s in
        if f_ref (ftable s f) > 0 then Inr s
        else let ff = ftable s f; s = upd_file f (\<lambda>r. r\<lparr>f_ref := 0, f_type := FD_NONE\<rparr>) s in
          (case f_type ff of
             FD_PIPE \<Rightarrow> pipeclose (f_pipe ff) (f_writable ff) s
           | FD_INODE \<Rightarrow> bindE (begin_op s) (\<lambda>s. bindE (iput (f_ip ff) s) end_op)
           | FD_DEVICE \<Rightarrow> bindE (begin_op s) (\<lambda>s. bindE (iput (f_ip ff) s) end_op)
           | FD_NONE \<Rightarrow> Inr s))"

text \<open>The layout of \<open>struct stat\<close>: 4 bytes of padding before the size.\<close>

definition stat_bytes :: "stat \<Rightarrow> u8 list" where
  "stat_bytes st = le_encode 4 (unat (st_dev st)) @ le_encode 4 (unat (st_ino st)) @
     le_encode 2 (unat (st_type st)) @ le_encode 2 (unat (st_nlink st)) @ replicate 4 0 @
     le_encode 8 (unat (st_size st))"

definition filestat :: "nat \<Rightarrow> u64 \<Rightarrow> 'z fls \<Rightarrow> 'z fls stop + int \<times> 'z fls" where
  "filestat f addr s = with_myproc s (\<lambda>p.
     if f_type (ftable s f) = FD_INODE \<or> f_type (ftable s f) = FD_DEVICE
     then bindE (ilock (f_ip (ftable s f)) s) (\<lambda>s.
          let st = stati (f_ip (ftable s f)) s in
          bindE (iunlock (f_ip (ftable s f)) s) (\<lambda>s.
          let (r, s) = copyout (p_pagetable (proc s p)) addr (stat_bytes st) s in
          if r < 0 then Inr (- 1, s) else Inr (0, s)))
     else Inr (- 1, s))"

definition device_missing :: "u16 \<Rightarrow> 'z fls \<Rightarrow> bool" where
  "device_missing major s \<longleftrightarrow> sint major < 0 \<or> sint major \<ge> int NDEV \<or> \<not> devsw_console s (unat major)"

definition fileread :: "nat \<Rightarrow> u64 \<Rightarrow> int \<Rightarrow> 'z fls \<Rightarrow> 'z fls stop + int \<times> 'z fls" where
  "fileread f addr n s =
     (let ff = ftable s f in
      if \<not> f_readable ff then Inr (- 1, s)
      else case f_type ff of
        FD_PIPE \<Rightarrow> piperead (f_pipe ff) addr n s
      | FD_DEVICE \<Rightarrow> if device_missing (f_major ff) s then Inr (- 1, s) else consoleread True addr n s
      | FD_INODE \<Rightarrow>
          bindE (ilock (f_ip ff) s) (\<lambda>s.
          bindE (readi (f_ip ff) (AddrOut True addr) (f_off (ftable s f)) (word_of_int n) s) (\<lambda>((tot, _), s).
          let r = sint tot;
              s = (if r > 0 then upd_file f (\<lambda>x. x\<lparr>f_off := f_off x + word_of_int r\<rparr>) s else s) in
          bindE (iunlock (f_ip ff) s) (\<lambda>s. Inr (r, s))))
      | FD_NONE \<Rightarrow> Inl (Panic ''fileread''))"

text \<open>The loop of \<open>filewrite\<close> over an inode: at most 3 blocks in a transaction.\<close>

abbreviation (input) FILEWRITE_MAX :: int where "FILEWRITE_MAX \<equiv> 3072"

function filewrite_loop :: "nat \<Rightarrow> nat \<Rightarrow> u64 \<Rightarrow> int \<Rightarrow> int \<Rightarrow> 'z fls \<Rightarrow> 'z fls stop + int \<times> 'z fls" where
  "filewrite_loop f ip addr n i s =
     (if \<not> i < n then Inr (i, s)
      else let n1 = min (n - i) FILEWRITE_MAX in
        bindE (begin_op s) (\<lambda>s.
        bindE (ilock ip s) (\<lambda>s.
        bindE (writei ip (AddrIn True (addr + word_of_int i)) (f_off (ftable s f)) (word_of_int n1) s) (\<lambda>(r, s).
        let s = (if r > 0 then upd_file f (\<lambda>x. x\<lparr>f_off := f_off x + word_of_int r\<rparr>) s else s) in
        bindE (iunlock ip s) (\<lambda>s.
        bindE (end_op s) (\<lambda>s.
        if r \<noteq> n1 then Inr (i, s) else filewrite_loop f ip addr n (i + r) s))))))"
  by pat_completeness auto
termination
  by (relation "measure (\<lambda>(f, ip, addr, n, i, s). nat (n - i))") auto

declare filewrite_loop.simps [simp del]

definition filewrite :: "nat \<Rightarrow> u64 \<Rightarrow> int \<Rightarrow> 'z fls \<Rightarrow> 'z fls stop + int \<times> 'z fls" where
  "filewrite f addr n s =
     (let ff = ftable s f in
      if \<not> f_writable ff then Inr (- 1, s)
      else case f_type ff of
        FD_PIPE \<Rightarrow> pipewrite (f_pipe ff) addr n s
      | FD_DEVICE \<Rightarrow> if device_missing (f_major ff) s then Inr (- 1, s) else consolewrite True addr n s
      | FD_INODE \<Rightarrow>
          bindE (filewrite_loop f (f_ip ff) addr n 0 s) (\<lambda>(i, s). Inr (if i = n then n else - 1, s))
      | FD_NONE \<Rightarrow> Inl (Panic ''filewrite''))"

section \<open>Creating a pipe\<close>

definition pipealloc_bad :: "nat option \<Rightarrow> nat option \<Rightarrow> 'z fls \<Rightarrow> 'z fls stop + (nat \<times> nat) option \<times> 'z fls" where
  "pipealloc_bad f0 f1 s =
     bindE (case f0 of Some f \<Rightarrow> fileclose f s | None \<Rightarrow> Inr s) (\<lambda>s.
     bindE (case f1 of Some f \<Rightarrow> fileclose f s | None \<Rightarrow> Inr s) (\<lambda>s.
     Inr (None, s)))"

definition pipealloc :: "'z fls \<Rightarrow> 'z fls stop + (nat \<times> nat) option \<times> 'z fls" where
  "pipealloc s =
     (case filealloc s of
        (None, s) \<Rightarrow> pipealloc_bad None None s
      | (Some f0, s) \<Rightarrow> (case filealloc s of
          (None, s) \<Rightarrow> pipealloc_bad (Some f0) None s
        | (Some f1, s) \<Rightarrow>
            let (pi, s) = kalloc s in
            if pi = 0 then pipealloc_bad (Some f0) (Some f1) s
            else let s = upd_pipe pi (\<lambda>r. r\<lparr>pi_readopen := True, pi_writeopen := True, pi_nwrite := 0, pi_nread := 0\<rparr>) s;
                     s = upd_file f0 (\<lambda>r. r\<lparr>f_type := FD_PIPE, f_readable := True, f_writable := False, f_pipe := pi\<rparr>) s;
                     s = upd_file f1 (\<lambda>r. r\<lparr>f_type := FD_PIPE, f_readable := False, f_writable := True, f_pipe := pi\<rparr>) s
              in Inr (Some (f0, f1), s)))"

end
