(* ===== verification/ProcLife.thy ===== *)
theory ProcLife
  imports File
begin

text \<open>
  The functions of kernel/proc.c that need files and inodes: \<open>userinit\<close>, \<open>fork\<close> and
  \<open>exit\<close>, complete.
\<close>

text \<open>The 52 bytes of \<open>initcode\<close>: a program that calls \<open>exec("/init")\<close>.\<close>

definition initcode :: "u8 list" where
  "initcode = [
     0x17, 0x05, 0x00, 0x00, 0x13, 0x05, 0x45, 0x02,
     0x97, 0x05, 0x00, 0x00, 0x93, 0x85, 0x35, 0x02,
     0x93, 0x08, 0x70, 0x00, 0x73, 0x00, 0x00, 0x00,
     0x93, 0x08, 0x20, 0x00, 0x73, 0x00, 0x00, 0x00,
     0xef, 0xf0, 0x9f, 0xff, 0x2f, 0x69, 0x6e, 0x69,
     0x74, 0x00, 0x00, 0x24, 0x00, 0x00, 0x00, 0x00,
     0x00, 0x00, 0x00, 0x00]"

text \<open>A C string as the bytes at its address.\<close>

definition cbytes :: "string \<Rightarrow> nat \<Rightarrow> u8" where
  "cbytes str i = (if i < length str then of_char (str ! i) else 0)"

definition userinit :: "'z fls \<Rightarrow> 'z fls stop + 'z fls" where
  "userinit s =
     bindE (allocproc s) (\<lambda>(p, s).
     case p of
       None \<Rightarrow> Inl (Fault ''userinit: allocproc'')
     | Some p \<Rightarrow>
         bindE (uvmfirst (p_pagetable (proc s p)) initcode (s\<lparr>initproc := Some p\<rparr>)) (\<lambda>s.
         let s = upd_proc p (\<lambda>r. r\<lparr>p_sz := of_nat PGSIZE\<rparr>) s;
             s = tf_store p TF_epc 0 s;
             s = tf_store p TF_sp (of_nat PGSIZE) s;
             s = upd_proc p (\<lambda>r. r\<lparr>p_name := safestrcpy (p_name r) (cbytes ''initcode'') 16\<rparr>) s in
         bindE (namei [SLASH] s) (\<lambda>(ip, s).
         Inr (upd_proc p (\<lambda>r. r\<lparr>p_cwd := ip, p_state := RUNNABLE\<rparr>) s))))"

text \<open>Sharing the open files with the child.\<close>

definition dup_ofile :: "nat \<Rightarrow> nat \<Rightarrow> nat \<Rightarrow> 'z fls \<Rightarrow> 'z fls stop + 'z fls" where
  "dup_ofile p np i s =
     (case p_ofile (proc s p) i of
        None \<Rightarrow> Inr s
      | Some f \<Rightarrow> bindE (filedup f s) (\<lambda>s. Inr (upd_proc np (\<lambda>r. r\<lparr>p_ofile := (p_ofile r)(i := Some f)\<rparr>) s)))"

definition fork :: "'z fls \<Rightarrow> 'z fls stop + int \<times> 'z fls" where
  "fork s = with_myproc s (\<lambda>p.
     bindE (allocproc s) (\<lambda>(np, s).
     case np of
       None \<Rightarrow> Inr (- 1, s)
     | Some np \<Rightarrow>
         bindE (uvmcopy (p_pagetable (proc s p)) (p_pagetable (proc s np)) (p_sz (proc s p)) s) (\<lambda>(r, s).
         if r < 0 then bindE (freeproc np s) (\<lambda>s. Inr (- 1, s))
         else let s = upd_proc np (\<lambda>r. r\<lparr>p_sz := p_sz (proc s p)\<rparr>) s;
                  s = s\<lparr>mem := storen (mem s) (p_trapframe (proc s np)) (loadn (mem s) (p_trapframe (proc s p)) TF_SIZE)\<rparr>;
                  s = tf_store np TF_a0 0 s in
           bindE (foldE (dup_ofile p np) [0..<NOFILE] s) (\<lambda>s.
           case p_cwd (proc s p) of
             None \<Rightarrow> Inl (Fault ''fork: cwd'')
           | Some cwd \<Rightarrow>
               let s = upd_proc np (\<lambda>r. r\<lparr>p_cwd := Some cwd\<rparr>) (idup cwd s);
                   s = upd_proc np (\<lambda>r. r\<lparr>p_name := safestrcpy (p_name r) (p_name (proc s p)) 16\<rparr>) s;
                   pid = p_pid (proc s np) in
               Inr (pid, fork_publish p np s)))))"

definition close_ofile :: "nat \<Rightarrow> nat \<Rightarrow> 'z fls \<Rightarrow> 'z fls stop + 'z fls" where
  "close_ofile p fd s =
     (case p_ofile (proc s p) fd of
        None \<Rightarrow> Inr s
      | Some f \<Rightarrow> bindE (fileclose f s) (\<lambda>s. Inr (upd_proc p (\<lambda>r. r\<lparr>p_ofile := (p_ofile r)(fd := None)\<rparr>) s)))"

text \<open>\<open>exit\<close> does not return: its end is the state in which the scheduler runs.\<close>

definition exit :: "int \<Rightarrow> 'z fls \<Rightarrow> 'z fls stop + 'a" where
  "exit status s = with_myproc s (\<lambda>p.
     if initproc s = Some p then Inl (Panic ''init exiting'')
     else bindE (foldE (close_ofile p) [0..<NOFILE] s) (\<lambda>s.
       bindE (begin_op s) (\<lambda>s.
       bindE (case p_cwd (proc s p) of None \<Rightarrow> Inl (Fault ''exit: cwd'') | Some ip \<Rightarrow> iput ip s) (\<lambda>s.
       bindE (end_op s) (\<lambda>s.
       bindE (exit_zombie status (upd_proc p (\<lambda>r. r\<lparr>p_cwd := None\<rparr>) s)) (\<lambda>s.
       Inl (Switched s)))))))"

end
