(* ===== verification/Exec.thy ===== *)
theory Exec
  imports ProcLife
begin

text \<open>
  kernel/exec.c and kernel/elf.h: loading a program.  The ELF and program headers are read
  into local objects of 64 and 56 bytes; argument strings are the bytes before the null.
\<close>

unbundle bit_operations_syntax

section \<open>Headers (kernel/elf.h)\<close>

abbreviation (input) ELF_MAGIC :: u32 where "ELF_MAGIC \<equiv> 0x464C457F"
abbreviation (input) ELF_PROG_LOAD :: u32 where "ELF_PROG_LOAD \<equiv> 1"

definition load64_at :: "u8 list \<Rightarrow> nat \<Rightarrow> u64" where
  "load64_at bs off = word_of_nat (load_bytes 8 (nth bs) off)"

record elfhdr =
  elf_magic :: u32
  elf_entry :: u64
  elf_phoff :: u64
  elf_phnum :: u16

record proghdr =
  ph_type :: u32
  ph_flags :: u32
  ph_off :: u64
  ph_vaddr :: u64
  ph_filesz :: u64
  ph_memsz :: u64

definition elf_of :: "u8 list \<Rightarrow> elfhdr" where
  "elf_of bs = \<lparr>elf_magic = load32 (nth bs) 0, elf_entry = load64_at bs 24, elf_phoff = load64_at bs 32,
     elf_phnum = load16 (nth bs) 56\<rparr>"

definition ph_of :: "u8 list \<Rightarrow> proghdr" where
  "ph_of bs = \<lparr>ph_type = load32 (nth bs) 0, ph_flags = load32 (nth bs) 4, ph_off = load64_at bs 8,
     ph_vaddr = load64_at bs 16, ph_filesz = load64_at bs 32, ph_memsz = load64_at bs 40\<rparr>"

definition flags2perm :: "u32 \<Rightarrow> u64" where
  "flags2perm flags =
     (let perm = (if flags AND 1 \<noteq> 0 then PTE_X else 0) in
      if flags AND 2 \<noteq> 0 then perm OR PTE_W else perm)"

section \<open>Loading\<close>

text \<open>The loop of \<open>loadseg\<close> over the page offsets i.\<close>

fun loadseg_from :: "u64 \<Rightarrow> u64 \<Rightarrow> nat \<Rightarrow> u32 \<Rightarrow> u32 \<Rightarrow> u32 list \<Rightarrow> 'z fls \<Rightarrow> 'z fls stop + int \<times> 'z fls" where
  "loadseg_from pagetable va ip offset sz [] s = Inr (0, s)"
| "loadseg_from pagetable va ip offset sz (i # is) s =
     (let pa = walkaddr pagetable (va + ucast i) s in
      if pa = 0 then Inl (Panic ''loadseg: address should exist'')
      else let n = (if sz - i < 4096 then sz - i else 4096) in
        bindE (readi ip (AddrOut False pa) (offset + i) n s) (\<lambda>((r, _), s).
        if r \<noteq> n then Inr (- 1, s) else loadseg_from pagetable va ip offset sz is s))"

definition loadseg :: "u64 \<Rightarrow> u64 \<Rightarrow> nat \<Rightarrow> u32 \<Rightarrow> u32 \<Rightarrow> 'z fls \<Rightarrow> 'z fls stop + int \<times> 'z fls" where
  "loadseg pagetable va ip offset sz s =
     loadseg_from pagetable va ip offset sz
       (map (\<lambda>k. of_nat (k * PGSIZE)) [0..<(unat sz + PGSIZE - 1) div PGSIZE]) s"

text \<open>The loop over the program headers: whether it succeeds, and the size reached.\<close>

fun load_segments :: "u64 \<Rightarrow> nat \<Rightarrow> u32 list \<Rightarrow> u64 \<Rightarrow> 'z fls \<Rightarrow> 'z fls stop + (bool \<times> u64) \<times> 'z fls" where
  "load_segments pagetable ip [] sz s = Inr ((True, sz), s)"
| "load_segments pagetable ip (off # offs) sz s =
     bindE (readi ip LocalOut off 56 s) (\<lambda>((r, bs), s).
     if r \<noteq> 56 then Inr ((False, sz), s)
     else let ph = ph_of bs in
       if ph_type ph \<noteq> ELF_PROG_LOAD then load_segments pagetable ip offs sz s
       else if ph_memsz ph < ph_filesz ph \<or> ph_vaddr ph + ph_memsz ph < ph_vaddr ph \<or>
               unat (ph_vaddr ph) mod PGSIZE \<noteq> 0
       then Inr ((False, sz), s)
       else bindE (uvmalloc pagetable sz (ph_vaddr ph + ph_memsz ph) (flags2perm (ph_flags ph)) s) (\<lambda>(sz1, s).
         if sz1 = 0 then Inr ((False, sz), s)
         else bindE (loadseg pagetable (ph_vaddr ph) ip (ucast (ph_off ph)) (ucast (ph_filesz ph)) s) (\<lambda>(r, s).
           if r < 0 then Inr ((False, sz1), s) else load_segments pagetable ip offs sz1 s)))"

definition ph_offsets :: "elfhdr \<Rightarrow> u32 list" where
  "ph_offsets elf = map (\<lambda>i. ucast (elf_phoff elf) + of_nat (56 * i)) [0..<unat (elf_phnum elf)]"

text \<open>The argument strings on the new stack: their addresses, or None after a failure.\<close>

definition align16 :: "u64 \<Rightarrow> u64" where
  "align16 sp = sp - sp mod 16"

fun push_args :: "u64 \<Rightarrow> u64 \<Rightarrow> u8 list list \<Rightarrow> nat \<Rightarrow> u64 \<Rightarrow> u64 list \<Rightarrow> 'z fls \<Rightarrow> (u64 \<times> u64 list) option \<times> 'z fls" where
  "push_args pagetable stackbase [] argc sp ustack s = (Some (sp, ustack), s)"
| "push_args pagetable stackbase (a # as) argc sp ustack s =
     (if argc \<ge> MAXARG then (None, s)
      else let sp = align16 (sp - of_nat (length a + 1)) in
        if sp < stackbase then (None, s)
        else let (r, s) = copyout pagetable sp (a @ [0]) s in
          if r < 0 then (None, s) else push_args pagetable stackbase as (Suc argc) sp (ustack @ [sp]) s)"

text \<open>The label \<open>bad\<close>.\<close>

definition exec_bad :: "u64 \<Rightarrow> u64 \<Rightarrow> nat option \<Rightarrow> 'z fls \<Rightarrow> 'z fls stop + int \<times> 'z fls" where
  "exec_bad pagetable sz ip s =
     bindE (if pagetable \<noteq> 0 then proc_freepagetable pagetable sz s else Inr s) (\<lambda>s.
     bindE (case ip of Some ip \<Rightarrow> bindE (iunlockput ip s) end_op | None \<Rightarrow> Inr s) (\<lambda>s.
     Inr (- 1, s)))"

definition after_last_slash :: "u8 list \<Rightarrow> u8 list" where
  "after_last_slash path = rev (takeWhile (\<lambda>c. c \<noteq> SLASH) (rev path))"

definition path_bytes :: "u8 list \<Rightarrow> nat \<Rightarrow> u8" where
  "path_bytes path i = (if i < length path then path ! i else 0)"

text \<open>From the new page table with the segments loaded to the return.\<close>

definition exec_stack :: "nat \<Rightarrow> u8 list \<Rightarrow> u8 list list \<Rightarrow> elfhdr \<Rightarrow> u64 \<Rightarrow> u64 \<Rightarrow> 'z fls \<Rightarrow> 'z fls stop + int \<times> 'z fls" where
  "exec_stack p path argv elf pagetable sz0 s =
     (let oldsz = p_sz (proc s p); sz = PGROUNDUP sz0 in
      bindE (uvmalloc pagetable sz (sz + 2 * of_nat PGSIZE) PTE_W s) (\<lambda>(sz1, s).
      if sz1 = 0 then exec_bad pagetable sz None s
      else bindE (uvmclear pagetable (sz1 - 2 * of_nat PGSIZE) s) (\<lambda>s.
        let stackbase = sz1 - of_nat PGSIZE in
        case push_args pagetable stackbase argv 0 sz1 [] s of
          (None, s) \<Rightarrow> exec_bad pagetable sz1 None s
        | (Some (sp, ustack), s) \<Rightarrow>
            if length ustack \<ge> MAXARG then Inl (Fault ''exec: ustack'')
            else let argc = length ustack; sp = align16 (sp - of_nat ((argc + 1) * 8)) in
              if sp < stackbase then exec_bad pagetable sz1 None s
              else let (r, s) = copyout pagetable sp (concat (map (\<lambda>a. le_encode 8 (unat a)) (ustack @ [0]))) s in
                if r < 0 then exec_bad pagetable sz1 None s
                else let s = tf_store p TF_a1 sp s;
                         oldpagetable = p_pagetable (proc s p);
                         s = upd_proc p (\<lambda>x. x\<lparr>p_name := safestrcpy (p_name x) (path_bytes (after_last_slash path)) 16,
                               p_pagetable := pagetable, p_sz := sz1\<rparr>) s;
                         s = tf_store p TF_epc (elf_entry elf) s;
                         s = tf_store p TF_sp sp s in
                  bindE (proc_freepagetable oldpagetable oldsz s) (\<lambda>s. Inr (int argc, s)))))"

definition exec :: "u8 list \<Rightarrow> u8 list list \<Rightarrow> 'z fls \<Rightarrow> 'z fls stop + int \<times> 'z fls" where
  "exec path argv s = with_myproc s (\<lambda>p.
     bindE (begin_op s) (\<lambda>s.
     bindE (namei path s) (\<lambda>(ip, s).
     case ip of
       None \<Rightarrow> bindE (end_op s) (\<lambda>s. Inr (- 1, s))
     | Some ip \<Rightarrow>
         bindE (ilock ip s) (\<lambda>s.
         bindE (readi ip LocalOut 0 64 s) (\<lambda>((r, bs), s).
         if r \<noteq> 64 \<or> elf_magic (elf_of bs) \<noteq> ELF_MAGIC then exec_bad 0 0 (Some ip) s
         else bindE (proc_pagetable p s) (\<lambda>(pagetable, s).
           if pagetable = 0 then exec_bad 0 0 (Some ip) s
           else bindE (load_segments pagetable ip (ph_offsets (elf_of bs)) 0 s) (\<lambda>((ok, sz), s).
             if \<not> ok then exec_bad pagetable sz (Some ip) s
             else bindE (iunlockput ip s) (\<lambda>s.
               bindE (end_op s) (\<lambda>s.
               exec_stack p path argv (elf_of bs) pagetable sz s)))))))))"

end
