(* ===== verification/Sysfile.thy ===== *)
theory Sysfile
  imports Exec
begin

text \<open>
  Fetching system call arguments (kernel/syscall.c) and the file system calls
  (kernel/sysfile.c).  A string argument is returned as the bytes before its null; the
  results are the 64-bit values returned in register a0.
\<close>

unbundle bit_operations_syntax

section \<open>Arguments (kernel/syscall.c)\<close>

definition fetchaddr :: "u64 \<Rightarrow> 'z fls \<Rightarrow> 'z fls stop + int \<times> u64" where
  "fetchaddr addr s = with_myproc s (\<lambda>p.
     if addr \<ge> p_sz (proc s p) \<or> addr + 8 > p_sz (proc s p) then Inr (- 1, 0)
     else let (r, bs) = copyin (p_pagetable (proc s p)) addr 8 s in
       if r \<noteq> 0 then Inr (- 1, 0) else Inr (0, word_of_nat (le_decode bs)))"

definition fetchstr :: "u64 \<Rightarrow> nat \<Rightarrow> 'z fls \<Rightarrow> 'z fls stop + int \<times> u8 list" where
  "fetchstr addr maxn s = with_myproc s (\<lambda>p.
     let (r, bs) = copyinstr (p_pagetable (proc s p)) addr maxn s in
     if r < 0 then Inr (- 1, bs)
     else let str = takeWhile (\<lambda>c. c \<noteq> 0) bs in Inr (int (length str), str))"

definition argraw :: "nat \<Rightarrow> 'z fls \<Rightarrow> 'z fls stop + u64" where
  "argraw n s = with_myproc s (\<lambda>p.
     if n < 6 then Inr (tf_load p (TF_a0 + 8 * of_nat n) s) else Inl (Panic ''argraw''))"

definition argint :: "nat \<Rightarrow> 'z fls \<Rightarrow> 'z fls stop + int" where
  "argint n s = bindE (argraw n s) (\<lambda>v. Inr (sint (ucast v :: u32)))"

definition argaddr :: "nat \<Rightarrow> 'z fls \<Rightarrow> 'z fls stop + u64" where
  "argaddr n s = argraw n s"

definition argstr :: "nat \<Rightarrow> nat \<Rightarrow> 'z fls \<Rightarrow> 'z fls stop + int \<times> u8 list" where
  "argstr n maxn s = bindE (argaddr n s) (\<lambda>addr. fetchstr addr maxn s)"

section \<open>File descriptors\<close>

definition argfd :: "nat \<Rightarrow> 'z fls \<Rightarrow> 'z fls stop + (nat \<times> nat) option" where
  "argfd n s =
     bindE (argint n s) (\<lambda>fd.
     if fd < 0 \<or> fd \<ge> int NOFILE then Inr None
     else with_myproc s (\<lambda>p. Inr (map_option (\<lambda>f. (nat fd, f)) (p_ofile (proc s p) (nat fd)))))"

definition set_ofile :: "nat \<Rightarrow> nat \<Rightarrow> nat option \<Rightarrow> 'z fls \<Rightarrow> 'z fls" where
  "set_ofile p fd f s = upd_proc p (\<lambda>r. r\<lparr>p_ofile := (p_ofile r)(fd := f)\<rparr>) s"

definition fdalloc :: "nat \<Rightarrow> 'z fls \<Rightarrow> 'z fls stop + nat option \<times> 'z fls" where
  "fdalloc f s = with_myproc s (\<lambda>p.
     case first_index (\<lambda>fd. p_ofile (proc s p) fd = None) NOFILE of
       Some fd \<Rightarrow> Inr (Some fd, set_ofile p fd (Some f) s)
     | None \<Rightarrow> Inr (None, s))"

definition sys_dup :: "'z fls \<Rightarrow> 'z fls stop + u64 \<times> 'z fls" where
  "sys_dup s =
     bindE (argfd 0 s) (\<lambda>a. case a of
       None \<Rightarrow> Inr (- 1, s)
     | Some (_, f) \<Rightarrow>
         bindE (fdalloc f s) (\<lambda>(fd, s). case fd of
           None \<Rightarrow> Inr (- 1, s)
         | Some fd \<Rightarrow> bindE (filedup f s) (\<lambda>s. Inr (of_nat fd, s))))"

definition sys_read :: "'z fls \<Rightarrow> 'z fls stop + u64 \<times> 'z fls" where
  "sys_read s =
     bindE (argaddr 1 s) (\<lambda>p.
     bindE (argint 2 s) (\<lambda>n.
     bindE (argfd 0 s) (\<lambda>a. case a of
       None \<Rightarrow> Inr (- 1, s)
     | Some (_, f) \<Rightarrow> bindE (fileread f p n s) (\<lambda>(r, s). Inr (word_of_int r, s)))))"

definition sys_write :: "'z fls \<Rightarrow> 'z fls stop + u64 \<times> 'z fls" where
  "sys_write s =
     bindE (argaddr 1 s) (\<lambda>p.
     bindE (argint 2 s) (\<lambda>n.
     bindE (argfd 0 s) (\<lambda>a. case a of
       None \<Rightarrow> Inr (- 1, s)
     | Some (_, f) \<Rightarrow> bindE (filewrite f p n s) (\<lambda>(r, s). Inr (word_of_int r, s)))))"

definition sys_close :: "'z fls \<Rightarrow> 'z fls stop + u64 \<times> 'z fls" where
  "sys_close s =
     bindE (argfd 0 s) (\<lambda>a. case a of
       None \<Rightarrow> Inr (- 1, s)
     | Some (fd, f) \<Rightarrow> with_myproc s (\<lambda>p.
         bindE (fileclose f (set_ofile p fd None s)) (\<lambda>s. Inr (0, s))))"

definition sys_fstat :: "'z fls \<Rightarrow> 'z fls stop + u64 \<times> 'z fls" where
  "sys_fstat s =
     bindE (argaddr 1 s) (\<lambda>st.
     bindE (argfd 0 s) (\<lambda>a. case a of
       None \<Rightarrow> Inr (- 1, s)
     | Some (_, f) \<Rightarrow> bindE (filestat f st s) (\<lambda>(r, s). Inr (word_of_int r, s))))"

section \<open>Links\<close>


text \<open>Ending the transaction with an error.\<close>

definition end_error :: "'z fls \<Rightarrow> 'z fls stop + u64 \<times> 'z fls" where
  "end_error s = bindE (end_op s) (\<lambda>s. Inr (- 1, s))"

definition add_nlink :: "nat \<Rightarrow> u16 \<Rightarrow> 'z fls \<Rightarrow> 'z fls" where
  "add_nlink ip d s = upd_inode ip (\<lambda>r. r\<lparr>i_nlink := i_nlink r + d\<rparr>) s"

text \<open>The label \<open>bad\<close> of \<open>sys_link\<close>: the link count is taken back.\<close>

definition link_bad :: "nat \<Rightarrow> 'z fls \<Rightarrow> 'z fls stop + u64 \<times> 'z fls" where
  "link_bad ip s =
     bindE (ilock ip s) (\<lambda>s.
     bindE (iupdate ip (add_nlink ip (- 1) s)) (\<lambda>s.
     bindE (iunlockput ip s) end_error))"

definition sys_link :: "'z fls \<Rightarrow> 'z fls stop + u64 \<times> 'z fls" where
  "sys_link s =
     bindE (argstr 0 MAXPATH s) (\<lambda>(r0, old).
     if r0 < 0 then Inr (- 1, s)
     else bindE (argstr 1 MAXPATH s) (\<lambda>(r1, new).
     if r1 < 0 then Inr (- 1, s)
     else bindE (begin_op s) (\<lambda>s.
     bindE (namei old s) (\<lambda>(ip, s). case ip of
       None \<Rightarrow> end_error s
     | Some ip \<Rightarrow>
         bindE (ilock ip s) (\<lambda>s.
         if i_type (inode s ip) = T_DIR then bindE (iunlockput ip s) end_error
         else bindE (iupdate ip (add_nlink ip 1 s)) (\<lambda>s.
           bindE (iunlock ip s) (\<lambda>s.
           bindE (nameiparent new s) (\<lambda>((dp, name), s). case dp of
             None \<Rightarrow> link_bad ip s
           | Some dp \<Rightarrow>
               bindE (ilock dp s) (\<lambda>s.
               bindE (if i_dev (inode s dp) \<noteq> i_dev (inode s ip) then Inr (- 1, s)
                      else dirlink dp name (i_inum (inode s ip)) s) (\<lambda>(r, s).
               if r < 0 then bindE (iunlockput dp s) (link_bad ip)
               else bindE (iunlockput dp s) (\<lambda>s.
                 bindE (iput ip s) (\<lambda>s.
                 bindE (end_op s) (\<lambda>s. Inr (0, s)))))))))))))) "

text \<open>The entries after \<open>.\<close> and \<open>..\<close>.\<close>

fun isdirempty_from :: "nat \<Rightarrow> u32 list \<Rightarrow> 'z fls \<Rightarrow> 'z fls stop + bool \<times> 'z fls" where
  "isdirempty_from dp [] s = Inr (True, s)"
| "isdirempty_from dp (off # offs) s =
     bindE (readi dp LocalOut off 16 s) (\<lambda>((r, de), s).
     if r \<noteq> 16 then Inl (Panic ''isdirempty: readi'')
     else if de_inum de \<noteq> 0 then Inr (False, s) else isdirempty_from dp offs s)"

definition isdirempty :: "nat \<Rightarrow> 'z fls \<Rightarrow> 'z fls stop + bool \<times> 'z fls" where
  "isdirempty dp s = isdirempty_from dp (drop 2 (dir_offsets (i_size (inode s dp)))) s"

definition unlink_bad :: "nat \<Rightarrow> 'z fls \<Rightarrow> 'z fls stop + u64 \<times> 'z fls" where
  "unlink_bad dp s = bindE (iunlockput dp s) end_error"

definition sys_unlink :: "'z fls \<Rightarrow> 'z fls stop + u64 \<times> 'z fls" where
  "sys_unlink s =
     bindE (argstr 0 MAXPATH s) (\<lambda>(r, path).
     if r < 0 then Inr (- 1, s)
     else bindE (begin_op s) (\<lambda>s.
     bindE (nameiparent path s) (\<lambda>((dp, name), s). case dp of
       None \<Rightarrow> end_error s
     | Some dp \<Rightarrow>
         bindE (ilock dp s) (\<lambda>s.
         if namecmp name (cbytes ''.'') = 0 \<or> namecmp name (cbytes ''..'') = 0 then unlink_bad dp s
         else bindE (dirlookup dp name s) (\<lambda>(found, s). case found of
           None \<Rightarrow> unlink_bad dp s
         | Some (ip, off) \<Rightarrow>
             bindE (ilock ip s) (\<lambda>s.
             if sint (i_nlink (inode s ip)) < 1 then Inl (Panic ''unlink: nlink < 1'')
             else bindE (if i_type (inode s ip) = T_DIR then isdirempty ip s else Inr (True, s)) (\<lambda>(ok, s).
               if \<not> ok then bindE (iunlockput ip s) (unlink_bad dp)
               else bindE (writei dp (LocalIn (replicate 16 0)) off 16 s) (\<lambda>(w, s).
                 if w \<noteq> 16 then Inl (Panic ''unlink: writei'')
                 else bindE (if i_type (inode s ip) = T_DIR then iupdate dp (add_nlink dp (- 1) s) else Inr s) (\<lambda>s.
                   bindE (iunlockput dp s) (\<lambda>s.
                   bindE (iupdate ip (add_nlink ip (- 1) s)) (\<lambda>s.
                   bindE (iunlockput ip s) (\<lambda>s.
                   bindE (end_op s) (\<lambda>s. Inr (0, s))))))))))))))"

section \<open>Creating and opening\<close>

definition create_fail :: "nat \<Rightarrow> nat \<Rightarrow> 'z fls \<Rightarrow> 'z fls stop + nat option \<times> 'z fls" where
  "create_fail ip dp s =
     bindE (iupdate ip (upd_inode ip (\<lambda>r. r\<lparr>i_nlink := 0\<rparr>) s)) (\<lambda>s.
     bindE (iunlockput ip s) (\<lambda>s.
     bindE (iunlockput dp s) (\<lambda>s. Inr (None, s))))"

definition create :: "u8 list \<Rightarrow> u16 \<Rightarrow> u16 \<Rightarrow> u16 \<Rightarrow> 'z fls \<Rightarrow> 'z fls stop + nat option \<times> 'z fls" where
  "create path type major minor s =
     bindE (nameiparent path s) (\<lambda>((dp, name), s). case dp of
       None \<Rightarrow> Inr (None, s)
     | Some dp \<Rightarrow>
         bindE (ilock dp s) (\<lambda>s.
         bindE (dirlookup dp name s) (\<lambda>(found, s). case found of
           Some (ip, _) \<Rightarrow>
             bindE (iunlockput dp s) (\<lambda>s.
             bindE (ilock ip s) (\<lambda>s.
             if type = T_FILE \<and> (i_type (inode s ip) = T_FILE \<or> i_type (inode s ip) = T_DEVICE) then Inr (Some ip, s)
             else bindE (iunlockput ip s) (\<lambda>s. Inr (None, s))))
         | None \<Rightarrow>
             bindE (ialloc (i_dev (inode s dp)) type s) (\<lambda>(ip, s). case ip of
               None \<Rightarrow> bindE (iunlockput dp s) (\<lambda>s. Inr (None, s))
             | Some ip \<Rightarrow>
                 bindE (ilock ip s) (\<lambda>s.
                 bindE (iupdate ip (upd_inode ip (\<lambda>r. r\<lparr>i_major := major, i_minor := minor, i_nlink := 1\<rparr>) s)) (\<lambda>s.
                 bindE (if type = T_DIR
                        then bindE (dirlink ip (cbytes ''.'') (i_inum (inode s ip)) s) (\<lambda>(r, s).
                             if r < 0 then Inr (r, s) else dirlink ip (cbytes ''..'') (i_inum (inode s dp)) s)
                        else Inr (0, s)) (\<lambda>(r, s).
                 if r < 0 then create_fail ip dp s
                 else bindE (dirlink dp name (i_inum (inode s ip)) s) (\<lambda>(r, s).
                   if r < 0 then create_fail ip dp s
                   else bindE (if type = T_DIR then iupdate dp (add_nlink dp 1 s) else Inr s) (\<lambda>s.
                     bindE (iunlockput dp s) (\<lambda>s. Inr (Some ip, s))))))))))) "

abbreviation (input) O_WRONLY :: u32 where "O_WRONLY \<equiv> 0x001"
abbreviation (input) O_RDWR :: u32 where "O_RDWR \<equiv> 0x002"
abbreviation (input) O_CREATE :: u32 where "O_CREATE \<equiv> 0x200"
abbreviation (input) O_TRUNC :: u32 where "O_TRUNC \<equiv> 0x400"

text \<open>\<open>sys_open\<close> once the inode is found or created and locked.\<close>

definition open_inode :: "u32 \<Rightarrow> nat \<Rightarrow> 'z fls \<Rightarrow> 'z fls stop + u64 \<times> 'z fls" where
  "open_inode omode ip s =
     (let r = inode s ip in
      if i_type r = T_DEVICE \<and> (sint (i_major r) < 0 \<or> sint (i_major r) \<ge> int NDEV)
      then bindE (iunlockput ip s) end_error
      else case filealloc s of
        (None, s) \<Rightarrow> bindE (iunlockput ip s) end_error
      | (Some f, s) \<Rightarrow>
          bindE (fdalloc f s) (\<lambda>(fd, s). case fd of
            None \<Rightarrow> bindE (fileclose f s) (\<lambda>s. bindE (iunlockput ip s) end_error)
          | Some fd \<Rightarrow>
              let s = (if i_type (inode s ip) = T_DEVICE
                       then upd_file f (\<lambda>x. x\<lparr>f_type := FD_DEVICE, f_major := i_major (inode s ip)\<rparr>) s
                       else upd_file f (\<lambda>x. x\<lparr>f_type := FD_INODE, f_off := 0\<rparr>) s);
                  s = upd_file f (\<lambda>x. x\<lparr>f_ip := ip, f_readable := (omode AND O_WRONLY = 0),
                        f_writable := (omode AND O_WRONLY \<noteq> 0 \<or> omode AND O_RDWR \<noteq> 0)\<rparr>) s in
              bindE (if omode AND O_TRUNC \<noteq> 0 \<and> i_type (inode s ip) = T_FILE then itrunc ip s else Inr s) (\<lambda>s.
              bindE (iunlock ip s) (\<lambda>s.
              bindE (end_op s) (\<lambda>s. Inr (of_nat fd, s))))))"

definition sys_open :: "'z fls \<Rightarrow> 'z fls stop + u64 \<times> 'z fls" where
  "sys_open s =
     bindE (argint 1 s) (\<lambda>omode.
     bindE (argstr 0 MAXPATH s) (\<lambda>(n, path).
     if n < 0 then Inr (- 1, s)
     else bindE (begin_op s) (\<lambda>s.
     if (word_of_int omode :: u32) AND O_CREATE \<noteq> 0
     then bindE (create path T_FILE 0 0 s) (\<lambda>(ip, s). case ip of
            None \<Rightarrow> end_error s
          | Some ip \<Rightarrow> open_inode (word_of_int omode) ip s)
     else bindE (namei path s) (\<lambda>(ip, s). case ip of
            None \<Rightarrow> end_error s
          | Some ip \<Rightarrow>
              bindE (ilock ip s) (\<lambda>s.
              if i_type (inode s ip) = T_DIR \<and> omode \<noteq> 0 then bindE (iunlockput ip s) end_error
              else open_inode (word_of_int omode) ip s)))))"

definition sys_mkdir :: "'z fls \<Rightarrow> 'z fls stop + u64 \<times> 'z fls" where
  "sys_mkdir s =
     bindE (begin_op s) (\<lambda>s.
     bindE (argstr 0 MAXPATH s) (\<lambda>(r, path).
     if r < 0 then end_error s
     else bindE (create path T_DIR 0 0 s) (\<lambda>(ip, s). case ip of
       None \<Rightarrow> end_error s
     | Some ip \<Rightarrow> bindE (iunlockput ip s) (\<lambda>s. bindE (end_op s) (\<lambda>s. Inr (0, s))))))"

definition sys_mknod :: "'z fls \<Rightarrow> 'z fls stop + u64 \<times> 'z fls" where
  "sys_mknod s =
     bindE (begin_op s) (\<lambda>s.
     bindE (argint 1 s) (\<lambda>major.
     bindE (argint 2 s) (\<lambda>minor.
     bindE (argstr 0 MAXPATH s) (\<lambda>(r, path).
     if r < 0 then end_error s
     else bindE (create path T_DEVICE (word_of_int major) (word_of_int minor) s) (\<lambda>(ip, s). case ip of
       None \<Rightarrow> end_error s
     | Some ip \<Rightarrow> bindE (iunlockput ip s) (\<lambda>s. bindE (end_op s) (\<lambda>s. Inr (0, s))))))))"

definition sys_chdir :: "'z fls \<Rightarrow> 'z fls stop + u64 \<times> 'z fls" where
  "sys_chdir s = with_myproc s (\<lambda>p.
     bindE (begin_op s) (\<lambda>s.
     bindE (argstr 0 MAXPATH s) (\<lambda>(r, path).
     if r < 0 then end_error s
     else bindE (namei path s) (\<lambda>(ip, s). case ip of
       None \<Rightarrow> end_error s
     | Some ip \<Rightarrow>
         bindE (ilock ip s) (\<lambda>s.
         if i_type (inode s ip) \<noteq> T_DIR then bindE (iunlockput ip s) end_error
         else bindE (iunlock ip s) (\<lambda>s.
           bindE (case p_cwd (proc s p) of None \<Rightarrow> Inl (Fault ''sys_chdir: cwd'') | Some c \<Rightarrow> iput c s) (\<lambda>s.
           bindE (end_op s) (\<lambda>s.
           Inr (0, upd_proc p (\<lambda>x. x\<lparr>p_cwd := Some ip\<rparr>) s)))))))))"

section \<open>exec and pipe\<close>

text \<open>
  The loop of \<open>sys_exec\<close> that fetches the arguments: the pages allocated for them, their
  strings, and whether it reached the null pointer.
\<close>

function fetch_argv :: "u64 \<Rightarrow> nat \<Rightarrow> u64 list \<Rightarrow> u8 list list \<Rightarrow> 'z fls \<Rightarrow>
    'z fls stop + (bool \<times> u64 list \<times> u8 list list) \<times> 'z fls" where
  "fetch_argv uargv i pages strs s =
     (if i \<ge> MAXARG then Inr ((False, pages, strs), s)
      else bindE (fetchaddr (uargv + of_nat (8 * i)) s) (\<lambda>(r, uarg).
        if r < 0 then Inr ((False, pages, strs), s)
        else if uarg = 0 then Inr ((True, pages, strs), s)
        else let (pa, s) = kalloc s in
          if pa = 0 then Inr ((False, pages, strs), s)
          else bindE (fetchstr uarg PGSIZE s) (\<lambda>(r, str).
            if r < 0 then Inr ((False, pages @ [pa], strs), s)
            else fetch_argv uargv (Suc i) (pages @ [pa]) (strs @ [str])
                   (s\<lparr>mem := storen (mem s) pa (str @ [0])\<rparr>))))"
  by pat_completeness auto
termination
  by (relation "measure (\<lambda>(uargv, i, pages, strs, s). MAXARG - i)") auto

declare fetch_argv.simps [simp del]

definition sys_exec :: "'z fls \<Rightarrow> 'z fls stop + u64 \<times> 'z fls" where
  "sys_exec s =
     bindE (argaddr 1 s) (\<lambda>uargv.
     bindE (argstr 0 MAXPATH s) (\<lambda>(r, path).
     if r < 0 then Inr (- 1, s)
     else bindE (fetch_argv uargv 0 [] [] s) (\<lambda>((ok, pages, strs), s).
       bindE (if ok then exec path strs s else Inr (- 1, s)) (\<lambda>(ret, s).
       bindE (foldE kfree pages s) (\<lambda>s. Inr (word_of_int ret, s))))))"

definition sys_pipe :: "'z fls \<Rightarrow> 'z fls stop + u64 \<times> 'z fls" where
  "sys_pipe s = with_myproc s (\<lambda>p.
     bindE (argaddr 0 s) (\<lambda>fdarray.
     bindE (pipealloc s) (\<lambda>(fs, s). case fs of
       None \<Rightarrow> Inr (- 1, s)
     | Some (rf, wrf) \<Rightarrow>
         bindE (fdalloc rf s) (\<lambda>(fd0, s). case fd0 of
           None \<Rightarrow> bindE (fileclose rf s) (\<lambda>s. bindE (fileclose wrf s) (\<lambda>s. Inr (- 1, s)))
         | Some fd0 \<Rightarrow>
             bindE (fdalloc wrf s) (\<lambda>(fd1, s). case fd1 of
               None \<Rightarrow>
                 bindE (fileclose rf (set_ofile p fd0 None s)) (\<lambda>s. bindE (fileclose wrf s) (\<lambda>s. Inr (- 1, s)))
             | Some fd1 \<Rightarrow>
                 let (r0, s) = copyout (p_pagetable (proc s p)) fdarray (le_encode 4 fd0) s;
                     (r1, s) = (if r0 < 0 then (r0, s)
                       else copyout (p_pagetable (proc s p)) (fdarray + 4) (le_encode 4 fd1) s) in
                 if r1 < 0
                 then bindE (fileclose rf (set_ofile p fd1 None (set_ofile p fd0 None s))) (\<lambda>s.
                      bindE (fileclose wrf s) (\<lambda>s. Inr (- 1, s)))
                 else Inr (0, s))))))"

end
