(* ===== verification/Syscall.thy ===== *)
theory Syscall
  imports Sysfile
begin

text \<open>
  The remaining system calls (kernel/sysproc.c) and the dispatcher of kernel/syscall.c.
\<close>

section \<open>Process system calls (kernel/sysproc.c)\<close>

definition sys_exit :: "'z fls \<Rightarrow> 'z fls stop + u64 \<times> 'z fls" where
  "sys_exit s = bindE (argint 0 s) (\<lambda>n. exit n s)"

definition sys_getpid :: "'z fls \<Rightarrow> 'z fls stop + u64 \<times> 'z fls" where
  "sys_getpid s = with_myproc s (\<lambda>p. Inr (word_of_int (p_pid (proc s p)), s))"

definition sys_fork :: "'z fls \<Rightarrow> 'z fls stop + u64 \<times> 'z fls" where
  "sys_fork s = bindE (fork s) (\<lambda>(r, s). Inr (word_of_int r, s))"

definition sys_wait :: "'z fls \<Rightarrow> 'z fls stop + u64 \<times> 'z fls" where
  "sys_wait s = bindE (argaddr 0 s) (\<lambda>p. bindE (wait p s) (\<lambda>(r, s). Inr (word_of_int r, s)))"

definition sys_sbrk :: "'z fls \<Rightarrow> 'z fls stop + u64 \<times> 'z fls" where
  "sys_sbrk s =
     bindE (argint 0 s) (\<lambda>n.
     with_myproc s (\<lambda>p.
     let addr = p_sz (proc s p) in
     bindE (growproc (word_of_int n) s) (\<lambda>(r, s).
     if r < 0 then Inr (- 1, s) else Inr (addr, s))))"

text \<open>The loop of \<open>sys_sleep\<close>: it tests again when the process is woken.\<close>

definition sleep_until :: "u32 \<Rightarrow> int \<Rightarrow> 'z fls \<Rightarrow> 'z fls stop + u64 \<times> 'z fls" where
  "sleep_until ticks0 n s =
     (if ticks s - ticks0 < word_of_int n
      then with_myproc s (\<lambda>p. if killed p s \<noteq> 0 then Inr (- 1, s) else sleep ChanTicks s)
      else Inr (0, s))"

definition sys_sleep :: "'z fls \<Rightarrow> 'z fls stop + u64 \<times> 'z fls" where
  "sys_sleep s = bindE (argint 0 s) (\<lambda>n. sleep_until (ticks s) n s)"

definition sys_kill :: "'z fls \<Rightarrow> 'z fls stop + u64 \<times> 'z fls" where
  "sys_kill s = bindE (argint 0 s) (\<lambda>pid. let (r, s) = kill pid s in Inr (word_of_int r, s))"

definition sys_uptime :: "'z fls \<Rightarrow> 'z fls stop + u64 \<times> 'z fls" where
  "sys_uptime s = Inr (ucast (ticks s), s)"

text \<open>
  \<open>sys_history\<close> indexes the history with an unchecked difference; outside the array it is a
  Fault.  The difference is computed in unsigned arithmetic and stored in an int.
\<close>

definition sys_history :: "'z fls \<Rightarrow> 'z fls stop + u64 \<times> 'z fls" where
  "sys_history s =
     bindE (argint 0 s) (\<lambda>historyNum.
     let target = sint (lastCommandIndex (historyBuf s) - word_of_int historyNum :: u32) in
     if target - 1 < 0 \<or> target - 1 \<ge> int MAX_HISTORY then Inl (Fault ''sys_history: bufferArr'')
     else let s = fold (\<lambda>i s. consputc (uint (bufferArr (historyBuf s) (nat (target - 1)) i)) s) [0..<INPUT_BUF_SIZE] s in
       bindE (kprintf newline [] s) (\<lambda>s. Inr (0, s)))"

definition sys_top :: "'z fls \<Rightarrow> 'z fls stop + u64 \<times> 'z fls" where
  "sys_top s = bindE (get_top_info s) (\<lambda>(_, s). Inr (0, s))"

section \<open>Dispatch (kernel/syscall.c)\<close>

text \<open>The table \<open>syscalls\<close>; entry 0 is empty.\<close>

definition syscalls :: "int \<Rightarrow> ('z fls \<Rightarrow> 'z fls stop + u64 \<times> 'z fls) option" where
  "syscalls num =
     (if num = 1 then Some sys_fork else if num = 2 then Some sys_exit else if num = 3 then Some sys_wait
      else if num = 4 then Some sys_pipe else if num = 5 then Some sys_read else if num = 6 then Some sys_kill
      else if num = 7 then Some sys_exec else if num = 8 then Some sys_fstat else if num = 9 then Some sys_chdir
      else if num = 10 then Some sys_dup else if num = 11 then Some sys_getpid else if num = 12 then Some sys_sbrk
      else if num = 13 then Some sys_sleep else if num = 14 then Some sys_uptime else if num = 15 then Some sys_open
      else if num = 16 then Some sys_write else if num = 17 then Some sys_mknod else if num = 18 then Some sys_unlink
      else if num = 19 then Some sys_link else if num = 20 then Some sys_mkdir else if num = 21 then Some sys_close
      else if num = 22 then Some sys_history else if num = 23 then Some sys_top else None)"

definition syscall :: "'z fls \<Rightarrow> 'z fls stop + 'z fls" where
  "syscall s = with_myproc s (\<lambda>p.
     let num = sint (ucast (tf_load p TF_a7 s) :: u32) in
     case syscalls num of
       Some f \<Rightarrow> bindE (f s) (\<lambda>(r, s). Inr (tf_store p TF_a0 r s))
     | None \<Rightarrow>
         bindE (kprintf (''%d %s: unknown sys call %d'' @ newline)
           [arg_int (p_pid (proc s p)), ArgStr (Some (name_str (p_name (proc s p)))), arg_int num] s) (\<lambda>s.
         Inr (tf_store p TF_a0 (- 1) s)))"

end
