(* ===== verification/Trap.thy ===== *)
theory Trap
  imports Syscall
begin

text \<open>
  kernel/trap.c and kernel/plic.c: traps from user and kernel mode and device interrupts.
  The supervisor registers of the hart are fields of the state.  The interrupt controller is
  seen through its registers: the interrupt numbers its claim register yields and the
  numbers written back to it.  The handler of the disk interrupt is an argument, since the
  disk driver keeps a state of its own (theory Virtio).
\<close>

unbundle bit_operations_syntax

section \<open>State\<close>

record trap_state = file_state +
  sstatus :: u64
  scause :: u64
  sepc :: u64
  stval :: u64
  stvec :: u64
  sip :: u64
  kernelvec :: u64     \<comment> \<open>addresses set by the linker\<close>
  uservec :: u64
  userret :: u64
  usertrap_pc :: u64
  plic_claims :: "u32 list"
  plic_writes :: "(u64 \<times> u32) list"

type_synonym 'z trs = "'z trap_state_scheme"

abbreviation (input) SSTATUS_SPP :: u64 where "SSTATUS_SPP \<equiv> 0x100"
abbreviation (input) SSTATUS_SPIE :: u64 where "SSTATUS_SPIE \<equiv> 0x20"
abbreviation (input) SSTATUS_SIE :: u64 where "SSTATUS_SIE \<equiv> 0x2"
abbreviation (input) UART0_IRQ :: u32 where "UART0_IRQ \<equiv> 10"
abbreviation (input) VIRTIO0_IRQ :: u32 where "VIRTIO0_IRQ \<equiv> 1"

definition PLIC_SENABLE :: "nat \<Rightarrow> u64" where "PLIC_SENABLE h = PLIC + 0x2080 + of_nat h * 0x100"
definition PLIC_SPRIORITY :: "nat \<Rightarrow> u64" where "PLIC_SPRIORITY h = PLIC + 0x201000 + of_nat h * 0x2000"
definition PLIC_SCLAIM :: "nat \<Rightarrow> u64" where "PLIC_SCLAIM h = PLIC + 0x201004 + of_nat h * 0x2000"

section \<open>The interrupt controller (kernel/plic.c)\<close>

definition plicinit :: "'z trs \<Rightarrow> 'z trs" where
  "plicinit s = s\<lparr>plic_writes := plic_writes s @ [(PLIC + ucast UART0_IRQ * 4, 1), (PLIC + ucast VIRTIO0_IRQ * 4, 1)]\<rparr>"

definition plicinithart :: "'z trs \<Rightarrow> 'z trs" where
  "plicinithart s = s\<lparr>plic_writes := plic_writes s @
     [(PLIC_SENABLE (cpuid s), push_bit (unat UART0_IRQ) 1 OR push_bit (unat VIRTIO0_IRQ) 1), (PLIC_SPRIORITY (cpuid s), 0)]\<rparr>"

definition plic_claim :: "'z trs \<Rightarrow> u32 \<times> 'z trs" where
  "plic_claim s = (case plic_claims s of [] \<Rightarrow> (0, s) | irq # irqs \<Rightarrow> (irq, s\<lparr>plic_claims := irqs\<rparr>))"

definition plic_complete :: "u32 \<Rightarrow> 'z trs \<Rightarrow> 'z trs" where
  "plic_complete irq s = s\<lparr>plic_writes := plic_writes s @ [(PLIC_SCLAIM (cpuid s), irq)]\<rparr>"

section \<open>Traps (kernel/trap.c)\<close>

definition intr_get :: "'z trs \<Rightarrow> bool" where "intr_get s \<longleftrightarrow> sstatus s AND SSTATUS_SIE \<noteq> 0"
definition intr_on :: "'z trs \<Rightarrow> 'z trs" where "intr_on s = s\<lparr>sstatus := sstatus s OR SSTATUS_SIE\<rparr>"
definition intr_off :: "'z trs \<Rightarrow> 'z trs" where "intr_off s = s\<lparr>sstatus := sstatus s AND NOT SSTATUS_SIE\<rparr>"

definition trapinithart :: "'z trs \<Rightarrow> 'z trs" where
  "trapinithart s = s\<lparr>stvec := kernelvec s\<rparr>"

definition clockintr :: "'z trs \<Rightarrow> 'z trs" where
  "clockintr s = wakeup (Some ChanTicks) (s\<lparr>ticks := ticks s + 1\<rparr>)"

definition devintr :: "('z trs \<Rightarrow> 'z trs stop + 'z trs) \<Rightarrow> 'z trs \<Rightarrow> 'z trs stop + int \<times> 'z trs" where
  "devintr virtio_disk_intr s =
     (if scause s AND 0x8000000000000000 \<noteq> 0 \<and> scause s AND 0xff = 9
      then let (irq, s) = plic_claim s in
        bindE (if irq = UART0_IRQ then uartintr s
               else if irq = VIRTIO0_IRQ then virtio_disk_intr s
               else if irq \<noteq> 0 then kprintf (''unexpected interrupt irq=%d'' @ newline) [ArgInt irq] s
               else Inr s) (\<lambda>s.
        Inr (1, if irq \<noteq> 0 then plic_complete irq s else s))
      else if scause s = 0x8000000000000001
      then let s = (if cpuid s = 0 then clockintr s else s) in Inr (2, s\<lparr>sip := sip s AND NOT 2\<rparr>)
      else Inr (0, s))"

text \<open>
  \<open>usertrapret\<close> prepares the return to user space; the model ends at the jump to the
  trampoline, with the value passed for the user page table.
\<close>

definition usertrapret :: "'z trs \<Rightarrow> 'z trs stop + u64 \<times> 'z trs" where
  "usertrapret s = with_myproc s (\<lambda>p.
     let s = intr_off s;
         s = s\<lparr>stvec := TRAMPOLINE + (uservec s - trampoline s)\<rparr>;
         s = tf_store p TF_kernel_satp (satp s) s;
         s = tf_store p TF_kernel_sp (p_kstack (proc s p) + of_nat PGSIZE) s;
         s = tf_store p TF_kernel_trap (usertrap_pc s) s;
         s = tf_store p TF_kernel_hartid (of_nat (hart s)) s;
         s = s\<lparr>sstatus := (sstatus s AND NOT SSTATUS_SPP) OR SSTATUS_SPIE\<rparr>;
         s = s\<lparr>sepc := tf_load p TF_epc s\<rparr>
     in Inr (MAKE_SATP (p_pagetable (proc s p)), s))"

text \<open>
  \<open>usertrap\<close> up to the call of \<open>usertrapret\<close>, which is also what runs when the process has
  given up the CPU for the timer interrupt and is scheduled again.
\<close>

definition usertrap :: "('z trs \<Rightarrow> 'z trs stop + 'z trs) \<Rightarrow> 'z trs \<Rightarrow> 'z trs stop + 'z trs" where
  "usertrap virtio_disk_intr s =
     (if sstatus s AND SSTATUS_SPP \<noteq> 0 then Inl (Panic ''usertrap: not from user mode'')
      else let s = s\<lparr>stvec := kernelvec s\<rparr> in
      with_myproc s (\<lambda>p.
      let s = tf_store p TF_epc (sepc s) s in
      bindE (if scause s = 8
             then if killed p s \<noteq> 0 then exit (- 1) s
                  else let s = tf_store p TF_epc (tf_load p TF_epc s + 4) s in
                    bindE (syscall (intr_on s)) (\<lambda>s. Inr (0, s))
             else bindE (devintr virtio_disk_intr s) (\<lambda>(which_dev, s).
               if which_dev \<noteq> 0 then Inr (which_dev, s)
               else bindE (kprintf (''usertrap(): unexpected scause %p pid=%d'' @ newline)
                             [ArgLong (scause s), arg_int (p_pid (proc s p))] s) (\<lambda>s.
                    bindE (kprintf (''            sepc=%p stval=%p'' @ newline) [ArgLong (sepc s), ArgLong (stval s)] s) (\<lambda>s.
                    Inr (0, setkilled p s))))) (\<lambda>(which_dev, s).
      if killed p s \<noteq> 0 then exit (- 1) s
      else if which_dev = 2 then bindE (yield s) (\<lambda>s. Inl (Switched s))
      else Inr s)))"

definition kerneltrap :: "('z trs \<Rightarrow> 'z trs stop + 'z trs) \<Rightarrow> 'z trs \<Rightarrow> 'z trs stop + 'z trs" where
  "kerneltrap virtio_disk_intr s =
     (let epc = sepc s; status = sstatus s; cause = scause s in
      if status AND SSTATUS_SPP = 0 then Inl (Panic ''kerneltrap: not from supervisor mode'')
      else if intr_get s then Inl (Panic ''kerneltrap: interrupts enabled'')
      else bindE (devintr virtio_disk_intr s) (\<lambda>(which_dev, s).
        if which_dev = 0
        then bindE (kprintf (''scause %p'' @ newline) [ArgLong cause] s) (\<lambda>s.
             bindE (kprintf (''sepc=%p stval=%p'' @ newline) [ArgLong (sepc s), ArgLong (stval s)] s) (\<lambda>s.
             Inl (Panic ''kerneltrap'')))
        else case myproc s of
          Some p \<Rightarrow>
            if which_dev = 2 \<and> p_state (proc s p) = RUNNING
            then bindE (yield s) (\<lambda>s. Inl (Switched s))
            else Inr (s\<lparr>sepc := epc, sstatus := status\<rparr>)
        | None \<Rightarrow> Inr (s\<lparr>sepc := epc, sstatus := status\<rparr>)))"

text \<open>
  \<open>forkret\<close>, where a new process first runs: the first of all mounts the file system.  The
  static flag \<open>first\<close> is passed in and returned.
\<close>

definition forkret :: "bool \<Rightarrow> 'z trs \<Rightarrow> 'z trs stop + bool \<times> u64 \<times> 'z trs" where
  "forkret first s =
     bindE (if first then fsinit ROOTDEV s else Inr s) (\<lambda>s.
     bindE (usertrapret s) (\<lambda>(a, s). Inr (False, a, s)))"

end
