(* ===== verification/Spec2Isabelle.thy ===== *)
theory Spec2Isabelle
  imports FsSpec Trap
begin

text \<open>
  A verification development for the xv6 kernel and user programs under src/.
\<close>

end
